theory Spec2Isabelle
  imports Complex_Main
begin

section \<open>Data model of the expense tracker\<close>

text \<open>
  The embedding follows \<^verbatim>\<open>src/app.js\<close>. The category of an expense is one of the
  labels of the constant \<^verbatim>\<open>CATEGORIES\<close>, the only values the entry form offers.
\<close>

datatype category = Food | Transport | Housing | Entertainment | Bills | Shopping | Other

text \<open>
  An expense object \<^verbatim>\<open>{ id, amount, category, description, date }\<close>. The field
  \<^verbatim>\<open>id\<close> is named \<open>id_e\<close> here, \<open>id\<close> being the identity function of HOL.
\<close>

record expense =
  id_e :: string
  amount :: real
  category :: category
  description :: string
  date :: string

subsection \<open>Numbers\<close>

text \<open>
  Amounts, totals and budgets are JavaScript numbers: IEEE 754 doubles. A finite double is
  the real number it stands for, and every arithmetic operation of the source gives the
  exact result rounded to the nearest double, to the one with an even significand when two
  are equally near. \<open>fl\<close> is that rounding: a double has a significand of 53 bits, and
  below \<open>2 ^ - 1022\<close> the spacing of the doubles stays \<open>2 ^ - 1074\<close>. NaN, the
  infinities (a result beyond the largest double) and the sign of zero are not modelled.
\<close>

text \<open>The number of binary digits of a positive integer.\<close>

function bitlength :: "int \<Rightarrow> int" where
  "bitlength n = (if n \<le> 0 then 0 else 1 + bitlength (n div 2))"
  by pat_completeness auto
termination
  by (relation "measure nat") auto

declare bitlength.simps [simp del]

definition pow2 :: "int \<Rightarrow> real" where
  "pow2 e = (if 0 \<le> e then 2 ^ nat e else 1 / 2 ^ nat (- e))"

text \<open>For \<open>x > 0\<close>, the exponent \<open>k\<close> with \<open>2 ^ k \<le> x < 2 ^ (k + 1)\<close>.\<close>

definition ilog2 :: "real \<Rightarrow> int" where
  "ilog2 x = (if 1 \<le> x then bitlength \<lfloor>x\<rfloor> - 1 else - bitlength (\<lceil>1 / x\<rceil> - 1))"

text \<open>The nearest integer, the even one of two that are equally near.\<close>

definition round_even :: "real \<Rightarrow> int" where
  "round_even x =
     (let f = \<lfloor>x\<rfloor>; r = x - of_int f in
      if r < 1 / 2 then f else if 1 / 2 < r then f + 1 else if even f then f else f + 1)"

definition fl :: "real \<Rightarrow> real" where
  "fl x = (if x = 0 then 0
           else let e = max (ilog2 \<bar>x\<bar> - 52) (- 1074)
                in of_int (round_even (x / pow2 e)) * pow2 e)"

text \<open>
  \<^verbatim>\<open>x + y\<close>, \<^verbatim>\<open>x - y\<close>, \<^verbatim>\<open>x * y\<close> and, for a divisor other than 0, \<^verbatim>\<open>x / y\<close> on
  doubles.
\<close>

definition fadd :: "real \<Rightarrow> real \<Rightarrow> real" where
  "fadd x y = fl (x + y)"

definition fsub :: "real \<Rightarrow> real \<Rightarrow> real" where
  "fsub x y = fl (x - y)"

definition fmul :: "real \<Rightarrow> real \<Rightarrow> real" where
  "fmul x y = fl (x * y)"

definition fdiv :: "real \<Rightarrow> real \<Rightarrow> real" where
  "fdiv x y = fl (x / y)"

text \<open>
  What can go wrong in the functions modelled here. \<open>RangeError\<close> is the exception
  \<^verbatim>\<open>toISOString\<close> throws on an invalid date. \<open>ZeroDivisor\<close> is no exception of the
  platform, where a quotient with divisor 0 is an infinity or NaN: the model marks such a
  quotient, so that its absence is a property of the result.
\<close>

datatype js_error = RangeError | ZeroDivisor

definition js_div :: "real \<Rightarrow> real \<Rightarrow> js_error + real" where
  "js_div x y = (if y = 0 then Inl ZeroDivisor else Inr (fdiv x y))"

subsection \<open>Objects used as mappings\<close>

text \<open>
  A plain object whose properties are added one by one is a list of key and value pairs in
  the order of insertion, which is the order \<^verbatim>\<open>Object.keys\<close> lists the (non-numeric) keys
  in. Reading an absent property gives \<^verbatim>\<open>undefined\<close>, here \<open>None\<close>; assigning to a
  property that exists keeps its place, assigning to a new one appends it.
\<close>

type_synonym ('k, 'v) obj = "('k \<times> 'v) list"

fun obj_get :: "('k, 'v) obj \<Rightarrow> 'k \<Rightarrow> 'v option" where
  "obj_get [] k = None"
| "obj_get ((k', v) # ps) k = (if k' = k then Some v else obj_get ps k)"

fun obj_set :: "('k, 'v) obj \<Rightarrow> 'k \<Rightarrow> 'v \<Rightarrow> ('k, 'v) obj" where
  "obj_set [] k v = [(k, v)]"
| "obj_set ((k', v') # ps) k v = (if k' = k then (k, v) # ps else (k', v') # obj_set ps k v)"

definition Object_keys :: "('k, 'v) obj \<Rightarrow> 'k list" where
  "Object_keys ob = map fst ob"

definition Object_values :: "('k, 'v) obj \<Rightarrow> 'v list" where
  "Object_values ob = map snd ob"

text \<open>\<^verbatim>\<open>x || 0\<close> for a number or \<^verbatim>\<open>undefined\<close>: the falsy values are \<^verbatim>\<open>undefined\<close> and 0.\<close>

definition or0 :: "real option \<Rightarrow> real" where
  "or0 x = (case x of None \<Rightarrow> 0 | Some v \<Rightarrow> if v = 0 then 0 else v)"

section \<open>BudgetManager\<close>

text \<open>
  \<^verbatim>\<open>this.budgets\<close> is an object of objects: period type, then period key, then amount.
  \<^verbatim>\<open>setBudget\<close> changes it in place; the model returns the result of the call together
  with the new mapping. Writing the mapping to local storage (\<^verbatim>\<open>_saveBudgets\<close>) is left
  out. The amount the application passes is a number, which \<^verbatim>\<open>parseFloat\<close> gives back
  unchanged.
\<close>

type_synonym budgets = "string \<rightharpoonup> (string \<rightharpoonup> real)"

definition parseFloat :: "real \<Rightarrow> real" where
  "parseFloat x = x"

definition setBudget :: "budgets \<Rightarrow> string \<Rightarrow> string \<Rightarrow> real \<Rightarrow> bool \<times> budgets" where
  "setBudget budgets ty key amt =
     (if ty \<noteq> ''monthly'' \<and> ty \<noteq> ''weekly'' then (False, budgets)
      else
        let budgets1 = (case budgets ty of None \<Rightarrow> budgets(ty \<mapsto> Map.empty) | Some _ \<Rightarrow> budgets);
            inner = (case budgets1 ty of None \<Rightarrow> Map.empty | Some m \<Rightarrow> m)
        in (True, budgets1(ty \<mapsto> inner(key \<mapsto> parseFloat amt))))"

definition getBudget :: "budgets \<Rightarrow> string \<Rightarrow> string \<Rightarrow> real" where
  "getBudget budgets ty key =
     or0 (case budgets ty of None \<Rightarrow> None | Some m \<Rightarrow> m key)"

text \<open>The entry of the mapping for a period type and a period key, if there is one.\<close>

definition budget_entry :: "budgets \<Rightarrow> string \<Rightarrow> string \<Rightarrow> real option" where
  "budget_entry budgets ty key = (case budgets ty of None \<Rightarrow> None | Some m \<Rightarrow> m key)"

section \<open>InsightsEngine\<close>

subsection \<open>calculateTotals\<close>

record totals =
  total :: real
  categoryTotals :: "(category, real) obj"

definition calculateTotals :: "expense list \<Rightarrow> totals" where
  "calculateTotals expenses =
     \<lparr> total = foldl (\<lambda>sum e. fadd sum (amount e)) 0 expenses,
       categoryTotals =
         foldl (\<lambda>totals e. obj_set totals (category e)
                               (fadd (or0 (obj_get totals (category e))) (amount e)))
               [] expenses \<rparr>"

subsection \<open>generateInsights\<close>

text \<open>
  A message of \<^verbatim>\<open>generateInsights\<close> is one of nine templates. A value of \<open>insight\<close>
  names the template and carries the values the template interpolates: a percentage is
  the integer that \<^verbatim>\<open>toFixed(0)\<close> prints, an amount is the number handed to
  \<^verbatim>\<open>Utility.formatCurrency\<close>.
  \<^item> \<open>HigherThanLastWeek p\<close>: "Warning: Your spending is p% higher than last week. Be mindful!"
  \<^item> \<open>LowerThanLastWeek p\<close>: "Great job! Your spending is p% lower than last week. Keep saving!"
  \<^item> \<open>StartComparing\<close>: "Start comparing! You have expenses this week, but none recorded last week."
  \<^item> \<open>Excellent p r\<close>: "Excellent! You've only used p% of your monthly budget. Remaining: r."
  \<^item> \<open>CriticalWarning a\<close>: "Critical Warning: You are over budget by a this month. Immediate action needed!"
  \<^item> \<open>Caution p\<close>: "Caution: You are close to your budget limit (p% used). Be careful for the rest of the month."
  \<^item> \<open>Tip\<close>: "Tip: Set a monthly budget in the 'Budget & Goals' section to get critical performance feedback."
  \<^item> \<open>Observation c a\<close>: "Observation: Your highest expense category this month is c, costing a."
  \<^item> \<open>Suggestion c\<close>: "Suggestion: Try to find free or cheaper alternatives for c this week to maximize savings."
\<close>

datatype insight =
    HigherThanLastWeek int
  | LowerThanLastWeek int
  | StartComparing
  | Excellent int real
  | CriticalWarning real
  | Caution int
  | Tip
  | Observation category real
  | Suggestion category

text \<open>The rule of \<^verbatim>\<open>generateInsights\<close> a message comes from.\<close>

datatype insight_kind = WeeklyComparison | BudgetStatus | TopCategory | SavingsSuggestion

fun kind :: "insight \<Rightarrow> insight_kind" where
  "kind (HigherThanLastWeek p) = WeeklyComparison"
| "kind (LowerThanLastWeek p) = WeeklyComparison"
| "kind StartComparing = WeeklyComparison"
| "kind (Excellent p r) = BudgetStatus"
| "kind (CriticalWarning a) = BudgetStatus"
| "kind (Caution p) = BudgetStatus"
| "kind Tip = BudgetStatus"
| "kind (Observation c a) = TopCategory"
| "kind (Suggestion c) = SavingsSuggestion"

text \<open>
  \<^verbatim>\<open>x.toFixed(0)\<close>: the integer nearest to the exact value of the double \<open>x\<close>, the
  larger in magnitude of two that are equally near.
\<close>

definition toFixed0 :: "real \<Rightarrow> int" where
  "toFixed0 x = (if 0 \<le> x then \<lfloor>x + 1 / 2\<rfloor> else - \<lfloor>- x + 1 / 2\<rfloor>)"

text \<open>
  The summaries \<^verbatim>\<open>generateInsights\<close> starts from. Both have a member \<^verbatim>\<open>current\<close> in
  the source; the fields carry the initial of their summary here.
\<close>

record weekly_summary =
  currentWeekKey :: string
  lastWeekKey :: string
  w_current :: totals
  w_last :: totals

record monthly_summary =
  currentMonthKey :: string
  prevMonthKey :: string
  m_current :: totals
  m_prev :: totals
  budget :: real

text \<open>Rule 1, the weekly comparison, from the totals of the current and the last week.\<close>

definition weeklyComparison :: "real \<Rightarrow> real \<Rightarrow> js_error + insight list" where
  "weeklyComparison cur lst =
     (if cur > 0 \<and> lst > 0 then
        (let diff = fsub cur lst in
         case js_div \<bar>diff\<bar> lst of
           Inl e \<Rightarrow> Inl e
         | Inr q \<Rightarrow>
             (let percentDiff = fmul q 100 in
              if diff > 0 then Inr [HigherThanLastWeek (toFixed0 percentDiff)]
              else if diff < 0 then Inr [LowerThanLastWeek (toFixed0 percentDiff)]
              else Inr []))
      else if cur > 0 \<and> lst = 0 then Inr [StartComparing]
      else Inr [])"

text \<open>Rule 2, the budget insight, from the monthly budget and the total of the month.\<close>

definition budgetInsight :: "real \<Rightarrow> real \<Rightarrow> js_error + insight list" where
  "budgetInsight bud tot =
     (if bud > 0 then
        (let remaining = fsub bud tot in
         case js_div tot bud of
           Inl e \<Rightarrow> Inl e
         | Inr q \<Rightarrow>
             (let percentUsed = fmul q 100 in
              if remaining \<ge> 0 \<and> percentUsed < 80 then Inr [Excellent (toFixed0 percentUsed) remaining]
              else if remaining < 0 then Inr [CriticalWarning \<bar>remaining\<bar>]
              else if percentUsed \<ge> 80 then Inr [Caution (toFixed0 percentUsed)]
              else Inr []))
      else Inr [Tip])"

text \<open>
  \<^verbatim>\<open>keys.reduce((a, b) => ct[a] > ct[b] ? a : b)\<close>, without an initial value: the first
  key starts the accumulator. A comparison with \<^verbatim>\<open>undefined\<close> is false. On an empty
  array \<^verbatim>\<open>reduce\<close> throws; the source calls it on a non-empty array only, and the model
  gives \<open>None\<close> there.
\<close>

definition gt_undef :: "real option \<Rightarrow> real option \<Rightarrow> bool" where
  "gt_undef x y = (case (x, y) of (Some u, Some v) \<Rightarrow> u > v | _ \<Rightarrow> False)"

definition topCategory :: "(category, real) obj \<Rightarrow> category option" where
  "topCategory ct =
     (case Object_keys ct of
        [] \<Rightarrow> None
      | k # ks \<Rightarrow> Some (foldl (\<lambda>a b. if gt_undef (obj_get ct a) (obj_get ct b) then a else b) k ks))"

text \<open>
  Rule 3, the top category of the current month, with the suggestion that may follow it.
  The key that \<^verbatim>\<open>reduce\<close> returns is one of the keys of the object, so its amount is
  defined: the two \<open>None\<close> branches are never taken.
\<close>

definition topCategoryInsight :: "(category, real) obj \<Rightarrow> insight list" where
  "topCategoryInsight ct =
     (if length (Object_keys ct) > 0 then
        (case topCategory ct of
           None \<Rightarrow> []
         | Some topCat \<Rightarrow>
             (case obj_get ct topCat of
                None \<Rightarrow> []
              | Some topAmount \<Rightarrow>
                  [Observation topCat topAmount] @
                  (if topCat = Entertainment \<or> topCat = Shopping then [Suggestion topCat] else [])))
      else [])"

text \<open>
  \<^verbatim>\<open>generateInsights\<close>: the three rules push their messages onto one array, in this
  order. The two summaries, which the source computes first, are the arguments.
\<close>

definition generateInsights :: "weekly_summary \<Rightarrow> monthly_summary \<Rightarrow> js_error + insight list" where
  "generateInsights weekly monthly =
     (case weeklyComparison (total (w_current weekly)) (total (w_last weekly)) of
        Inl e \<Rightarrow> Inl e
      | Inr insights1 \<Rightarrow>
          (case budgetInsight (budget monthly) (total (m_current monthly)) of
             Inl e \<Rightarrow> Inl e
           | Inr insights2 \<Rightarrow>
               Inr (insights1 @ insights2 @ topCategoryInsight (categoryTotals (m_current monthly)))))"

section \<open>Utility: bucket keys\<close>

subsection \<open>Strings and numbers of the platform\<close>

text \<open>
  The pieces of text the bucket functions take apart and put together: decimal digits,
  \<^verbatim>\<open>String.prototype.split\<close> with a one-character separator,
  \<^verbatim>\<open>String.prototype.padStart\<close> with a one-character filler, and the conversions
  between strings and numbers.
\<close>

definition is_digit :: "char \<Rightarrow> bool" where
  "is_digit c = (48 \<le> (of_char c :: nat) \<and> (of_char c :: nat) \<le> 57)"

definition digit_val :: "char \<Rightarrow> nat" where
  "digit_val c = of_char c - 48"

definition digit_char :: "nat \<Rightarrow> char" where
  "digit_char n = char_of (48 + n)"

definition dec :: "string \<Rightarrow> nat" where
  "dec s = foldl (\<lambda>a c. 10 * a + digit_val c) 0 s"

fun show_nat :: "nat \<Rightarrow> string" where
  "show_nat n = (if n < 10 then [digit_char n] else show_nat (n div 10) @ [digit_char (n mod 10)])"

declare show_nat.simps [simp del]

definition show_int :: "int \<Rightarrow> string" where
  "show_int i = (if i < 0 then CHR ''-'' # show_nat (nat (- i)) else show_nat (nat i))"

definition padStart :: "nat \<Rightarrow> char \<Rightarrow> string \<Rightarrow> string" where
  "padStart n c s = replicate (n - length s) c @ s"

fun split :: "char \<Rightarrow> string \<Rightarrow> string list" where
  "split sep [] = [[]]"
| "split sep (c # cs) =
     (if c = sep then [] # split sep cs
      else (case split sep cs of [] \<Rightarrow> [[c]] | p # ps \<Rightarrow> (c # p) # ps))"

text \<open>
  A number as \<^verbatim>\<open>getPreviousMonth\<close> meets it: an integer or NaN. \<open>Number_str\<close> is
  \<^verbatim>\<open>Number\<close> on the strings that a key made of digits and \<^verbatim>\<open>-\<close> splits into: the empty
  string is 0, a run of digits is its decimal value (leading zeros allowed; exact, where the
  platform rounds beyond 2^53), and a string with another character is taken as NaN. Signs,
  fractions, exponents, white space, other radixes and \<^verbatim>\<open>Infinity\<close>, which \<^verbatim>\<open>Number\<close> also
  reads, are outside this fragment.
\<close>

datatype jsnum = Num int | NaN

definition Number_str :: "string \<Rightarrow> jsnum" where
  "Number_str s =
     (if s = [] then Num 0 else if list_all is_digit s then Num (int (dec s)) else NaN)"

text \<open>A value that may be \<^verbatim>\<open>undefined\<close> (\<open>None\<close>): its conversion to a number and to a string.\<close>

definition ToNumber :: "jsnum option \<Rightarrow> jsnum" where
  "ToNumber v = (case v of None \<Rightarrow> NaN | Some n \<Rightarrow> n)"

definition num_sub :: "jsnum \<Rightarrow> jsnum \<Rightarrow> jsnum" where
  "num_sub a b = (case (a, b) of (Num x, Num y) \<Rightarrow> Num (x - y) | _ \<Rightarrow> NaN)"

definition String_num :: "jsnum \<Rightarrow> string" where
  "String_num n = (case n of NaN \<Rightarrow> ''NaN'' | Num i \<Rightarrow> show_int i)"

definition ToString :: "jsnum option \<Rightarrow> string" where
  "ToString v = (case v of None \<Rightarrow> ''undefined'' | Some n \<Rightarrow> String_num n)"

definition nth_opt :: "'a list \<Rightarrow> nat \<Rightarrow> 'a option" where
  "nth_opt xs i = (if i < length xs then Some (xs ! i) else None)"

subsection \<open>getPreviousMonth\<close>

text \<open>
  \<^verbatim>\<open>const [year, month] = dateKey.split('-').map(Number)\<close>: an element the array does not
  have is \<^verbatim>\<open>undefined\<close>. No step of the function throws on a string; the result is put
  into the type the other bucket functions return.
\<close>

definition getPreviousMonth :: "string \<Rightarrow> js_error + string" where
  "getPreviousMonth dateKey =
     (let parts = map Number_str (split CHR ''-'' dateKey);
          year = nth_opt parts 0;
          month = nth_opt parts 1;
          prevMonth = (if month = Some (Num 1) then Num 12 else num_sub (ToNumber month) (Num 1));
          prevYear = (if month = Some (Num 1) then Some (num_sub (ToNumber year) (Num 1)) else year)
      in Inr (ToString prevYear @ ''-'' @ padStart 2 CHR ''0'' (String_num prevMonth)))"

subsection \<open>Dates of the platform\<close>

text \<open>
  \<^verbatim>\<open>Date\<close> is the platform's. Its model follows the ECMAScript definitions: a date object
  holds a time value, the milliseconds since 1970-01-01T00:00:00Z, or NaN (\<open>None\<close>); days
  are numbered from 1970-01-01; months are numbered from 0; local time is the time value
  plus the offset of the host's time zone, taken as constant (no daylight saving
  transitions).
\<close>

definition msPerDay :: int where
  "msPerDay = 86400000"

definition Day :: "int \<Rightarrow> int" where
  "Day t = t div msPerDay"

definition TimeWithinDay :: "int \<Rightarrow> int" where
  "TimeWithinDay t = t mod msPerDay"

definition InLeapYear :: "int \<Rightarrow> bool" where
  "InLeapYear y = (y mod 4 = 0 \<and> (y mod 100 \<noteq> 0 \<or> y mod 400 = 0))"

definition DayFromYear :: "int \<Rightarrow> int" where
  "DayFromYear y = 365 * (y - 1970) + (y - 1969) div 4 - (y - 1901) div 100 + (y - 1601) div 400"

text \<open>
  The year of a day: the largest \<open>y\<close> with \<open>DayFromYear y \<le> d\<close>, found next to the
  estimate that 400 years have 146097 days.
\<close>

definition YearFromDay :: "int \<Rightarrow> int" where
  "YearFromDay d =
     (let y = 1970 + (400 * d) div 146097 in
      if d < DayFromYear y then y - 1
      else if DayFromYear (y + 1) \<le> d then y + 1
      else y)"

definition DayWithinYear :: "int \<Rightarrow> int" where
  "DayWithinYear d = d - DayFromYear (YearFromDay d)"

text \<open>The number of days of a year before its month \<open>m\<close> (from 0), in a leap year or not.\<close>

definition monthStart :: "int \<Rightarrow> bool \<Rightarrow> int" where
  "monthStart m leap =
     (let l = (if leap then 1 else 0) in
      if m = 0 then 0 else if m = 1 then 31 else if m = 2 then 59 + l
      else if m = 3 then 90 + l else if m = 4 then 120 + l else if m = 5 then 151 + l
      else if m = 6 then 181 + l else if m = 7 then 212 + l else if m = 8 then 243 + l
      else if m = 9 then 273 + l else if m = 10 then 304 + l else 334 + l)"

definition MonthFromDay :: "int \<Rightarrow> int" where
  "MonthFromDay d =
     (let n = DayWithinYear d; l = (if InLeapYear (YearFromDay d) then 1 else 0) in
      if n < 31 then 0 else if n < 59 + l then 1 else if n < 90 + l then 2
      else if n < 120 + l then 3 else if n < 151 + l then 4 else if n < 181 + l then 5
      else if n < 212 + l then 6 else if n < 243 + l then 7 else if n < 273 + l then 8
      else if n < 304 + l then 9 else if n < 334 + l then 10 else 11)"

definition DateFromDay :: "int \<Rightarrow> int" where
  "DateFromDay d =
     DayWithinYear d - monthStart (MonthFromDay d) (InLeapYear (YearFromDay d)) + 1"

text \<open>The day of the week, 0 for Sunday: day 0 was a Thursday.\<close>

definition WeekDay :: "int \<Rightarrow> int" where
  "WeekDay d = (d + 4) mod 7"

text \<open>
  \<open>MakeDay\<close>: the day number of a year, a month (from 0, any integer: months outside 0 to 11
  carry into the year) and a day of the month (any integer: days outside the month carry
  into the neighbouring months).
\<close>

definition MakeDay :: "int \<Rightarrow> int \<Rightarrow> int \<Rightarrow> int" where
  "MakeDay y m dt =
     (let ym = y + m div 12; mn = m mod 12 in
      DayFromYear ym + monthStart mn (InLeapYear ym) + dt - 1)"

text \<open>
  The host: the offset of its local time from UTC in milliseconds, and what its
  \<^verbatim>\<open>Date\<close> makes of a string that is not a date-only string \<^verbatim>\<open>YYYY-MM-DD\<close> of a day
  that exists. ECMAScript leaves that to the implementation for most strings; \<open>None\<close> is an
  invalid date.
\<close>

record host =
  tzOffset :: int
  parseOther :: "string \<Rightarrow> int option"

definition LocalTime :: "host \<Rightarrow> int \<Rightarrow> int" where
  "LocalTime h t = t + tzOffset h"

definition UTC :: "host \<Rightarrow> int \<Rightarrow> int" where
  "UTC h t = t - tzOffset h"

definition DaysInMonth :: "int \<Rightarrow> int \<Rightarrow> int" where
  "DaysInMonth y m =
     (if m = 2 then (if InLeapYear y then 29 else 28)
      else if m = 4 \<or> m = 6 \<or> m = 9 \<or> m = 11 then 30 else 31)"

text \<open>
  \<^verbatim>\<open>new Date(s)\<close> for a string. A date-only string is the start of its day in UTC. The
  month of the string counts from 1.
\<close>

definition new_Date :: "host \<Rightarrow> string \<Rightarrow> int option" where
  "new_Date h s =
     (if length s = 10 \<and> s ! 4 = CHR ''-'' \<and> s ! 7 = CHR ''-'' \<and>
         list_all is_digit (take 4 s) \<and> list_all is_digit (take 2 (drop 5 s)) \<and>
         list_all is_digit (drop 8 s) \<and>
         1 \<le> dec (take 2 (drop 5 s)) \<and> dec (take 2 (drop 5 s)) \<le> 12 \<and>
         1 \<le> dec (drop 8 s) \<and>
         int (dec (drop 8 s)) \<le> DaysInMonth (int (dec (take 4 s))) (int (dec (take 2 (drop 5 s))))
      then Some (MakeDay (int (dec (take 4 s))) (int (dec (take 2 (drop 5 s))) - 1)
                   (int (dec (drop 8 s))) * msPerDay)
      else parseOther h s)"

text \<open>The methods of a valid date the bucket functions call, on its time value.\<close>

definition getDay :: "host \<Rightarrow> int \<Rightarrow> int" where
  "getDay h t = WeekDay (Day (LocalTime h t))"

definition getDate :: "host \<Rightarrow> int \<Rightarrow> int" where
  "getDate h t = DateFromDay (Day (LocalTime h t))"

definition setDate :: "host \<Rightarrow> int \<Rightarrow> int \<Rightarrow> int" where
  "setDate h t dt =
     (let lt = LocalTime h t; d = Day lt in
      UTC h (MakeDay (YearFromDay d) (MonthFromDay d) dt * msPerDay + TimeWithinDay lt))"

definition setHours :: "host \<Rightarrow> int \<Rightarrow> int \<Rightarrow> int \<Rightarrow> int \<Rightarrow> int \<Rightarrow> int" where
  "setHours h t hour minute sec ms =
     UTC h (Day (LocalTime h t) * msPerDay
            + (hour * 3600000 + minute * 60000 + sec * 1000 + ms))"

text \<open>
  \<^verbatim>\<open>d.toISOString().split('T')[0]\<close> for a valid date: the date in UTC, the year with four
  digits from 0 to 9999 and with a sign and six digits otherwise.
\<close>

definition pad :: "nat \<Rightarrow> nat \<Rightarrow> string" where
  "pad n k = padStart n CHR ''0'' (show_nat k)"

definition iso_year :: "int \<Rightarrow> string" where
  "iso_year y =
     (if 0 \<le> y \<and> y \<le> 9999 then pad 4 (nat y)
      else (if y < 0 then CHR ''-'' else CHR ''+'') # pad 6 (nat \<bar>y\<bar>))"

definition iso_day :: "int \<Rightarrow> string" where
  "iso_day d =
     iso_year (YearFromDay d) @ ''-'' @ pad 2 (nat (MonthFromDay d + 1)) @ ''-'' @
     pad 2 (nat (DateFromDay d))"

definition iso_date :: "int \<Rightarrow> string" where
  "iso_date t = iso_day (Day t)"

subsection \<open>The bucket functions\<close>

text \<open>
  Each of the three starts with \<^verbatim>\<open>new Date(date)\<close> and ends with
  \<^verbatim>\<open>toISOString\<close>. On an invalid date every getter gives NaN, every setter leaves the
  date invalid, and \<^verbatim>\<open>toISOString\<close> throws a \<^verbatim>\<open>RangeError\<close>, the first branch of
  each model.
\<close>

definition getStartOfWeek :: "host \<Rightarrow> string \<Rightarrow> js_error + string" where
  "getStartOfWeek h date_s =
     (case new_Date h date_s of
        None \<Rightarrow> Inl RangeError
      | Some d \<Rightarrow>
          (let day = getDay h d;
               diff = getDate h d - day + (if day = 0 then - 6 else 1);
               d1 = setDate h d diff;
               d2 = setHours h d1 0 0 0 0
           in Inr (iso_date d2)))"

definition getStartOfMonth :: "host \<Rightarrow> string \<Rightarrow> js_error + string" where
  "getStartOfMonth h date_s =
     (case new_Date h date_s of
        None \<Rightarrow> Inl RangeError
      | Some d \<Rightarrow> (let d1 = setDate h d 1 in Inr (take 7 (iso_date d1))))"

definition getPreviousWeek :: "host \<Rightarrow> string \<Rightarrow> js_error + string" where
  "getPreviousWeek h dateKey =
     (case new_Date h dateKey of
        None \<Rightarrow> Inl RangeError
      | Some d \<Rightarrow> (let d1 = setDate h d (getDate h d - 7) in Inr (iso_date d1)))"

section \<open>ExpenseManager: getExpensesByWeek\<close>

text \<open>
  Two dates are compared by their time values; a comparison with an invalid date is false.
\<close>

definition date_le :: "int option \<Rightarrow> int option \<Rightarrow> bool" where
  "date_le a b = (case (a, b) of (Some x, Some y) \<Rightarrow> x \<le> y | _ \<Rightarrow> False)"

definition getExpensesByWeek :: "host \<Rightarrow> expense list \<Rightarrow> string \<Rightarrow> expense list" where
  "getExpensesByWeek h expenses dateKey =
     (let startOfWeek = new_Date h dateKey;
          endOfWeek =
            (case startOfWeek of
               None \<Rightarrow> None
             | Some t \<Rightarrow> Some (setHours h (setDate h t (getDate h t + 6)) 23 59 59 999))
      in filter (\<lambda>e. let expenseDate = new_Date h (date e)
                      in date_le startOfWeek expenseDate \<and> date_le expenseDate endOfWeek)
           expenses)"

text \<open>
  The key of a day of the calendar, as the application writes it, and the days that exist.
\<close>

definition date_key :: "nat \<Rightarrow> nat \<Rightarrow> nat \<Rightarrow> string" where
  "date_key y m d = pad 4 y @ ''-'' @ pad 2 m @ ''-'' @ pad 2 d"

definition month_key :: "nat \<Rightarrow> nat \<Rightarrow> string" where
  "month_key y m = pad 4 y @ ''-'' @ pad 2 m"

definition valid_date :: "nat \<Rightarrow> nat \<Rightarrow> nat \<Rightarrow> bool" where
  "valid_date y m d =
     (y \<le> 9999 \<and> 1 \<le> m \<and> m \<le> 12 \<and> 1 \<le> d \<and> int d \<le> DaysInMonth (int y) (int m))"

text \<open>The day number of a day of the calendar.\<close>

definition day_number :: "nat \<Rightarrow> nat \<Rightarrow> nat \<Rightarrow> int" where
  "day_number y m d = MakeDay (int y) (int m - 1) (int d)"

text \<open>Hosts for the examples: one on UTC, one on Indian time (UTC+05:30), one on UTC-05:00.\<close>

definition utc_host :: host where
  "utc_host = \<lparr>tzOffset = 0, parseOther = (\<lambda>s. None)\<rparr>"

definition ist_host :: host where
  "ist_host = \<lparr>tzOffset = 19800000, parseOther = (\<lambda>s. None)\<rparr>"

definition est_host :: host where
  "est_host = \<lparr>tzOffset = - 18000000, parseOther = (\<lambda>s. None)\<rparr>"


section \<open>Example data\<close>

text \<open>
  Inputs the properties below are evaluated at. \<open>demo\<close> is two of the entries the
  application seeds an empty store with, \<open>demoBudgets\<close> the budget mapping it seeds. A
  decimal literal of the source, or a decimal the form hands to \<^verbatim>\<open>parseFloat\<close>, is the
  double nearest to it: \<open>fl\<close> of the decimal.
\<close>

definition mkExpense :: "real \<Rightarrow> category \<Rightarrow> string \<Rightarrow> expense" where
  "mkExpense a c d = \<lparr>id_e = ''x'', amount = a, category = c, description = ''demo'', date = d\<rparr>"

definition demo :: "expense list" where
  "demo = [\<lparr>id_e = ''d1'', amount = fl 150.50, category = Food,
              description = ''Lunch at cafe'', date = ''2025-01-15''\<rparr>,
           \<lparr>id_e = ''d3'', amount = fl 650.99, category = Shopping,
              description = ''New shirt'', date = ''2025-01-15''\<rparr>]"

definition tied :: "expense list" where
  "tied = [mkExpense 10 Food ''2025-01-14'', mkExpense 10 Transport ''2025-01-14'']"

definition roundingRecords :: "expense list" where
  "roundingRecords = [mkExpense (fl 100.1) Food ''2025-01-14'',
                      mkExpense (fl 100.2) Transport ''2025-01-14'',
                      mkExpense (fl 100.3) Food ''2025-01-15'']"

definition demoBudgets :: budgets where
  "demoBudgets = [''monthly'' \<mapsto> [''2025-01'' \<mapsto> 15000]]"

definition weekRecords :: "expense list" where
  "weekRecords = map (mkExpense 1 Food) [''2025-01-12'', ''2025-01-13'', ''2025-01-19'', ''2025-01-20'']"

definition weekD :: weekly_summary where
  "weekD = \<lparr>currentWeekKey = ''2025-01-13'', lastWeekKey = ''2025-01-06'',
      w_current = calculateTotals [mkExpense 1000 Food ''2025-01-14''],
      w_last = calculateTotals [mkExpense 500 Food ''2025-01-07'']\<rparr>"

definition weekOf :: "real \<Rightarrow> real \<Rightarrow> weekly_summary" where
  "weekOf cur lst = \<lparr>currentWeekKey = ''2025-01-13'', lastWeekKey = ''2025-01-06'',
      w_current = calculateTotals [mkExpense cur Food ''2025-01-14''],
      w_last = calculateTotals [mkExpense lst Food ''2025-01-07'']\<rparr>"

definition monthOf :: "expense list \<Rightarrow> real \<Rightarrow> monthly_summary" where
  "monthOf rs b = \<lparr>currentMonthKey = ''2025-01'', prevMonthKey = ''2024-12'',
      m_current = calculateTotals rs, m_prev = calculateTotals [], budget = b\<rparr>"

section \<open>Properties of calculateTotals\<close>

lemma keys_obj_set: "fst ` set (obj_set ob k v) = insert k (fst ` set ob)"
  by (induction ob k v rule: obj_set.induct) (simp_all add: insert_commute)

lemma distinct_obj_set: "distinct (map fst ob) \<Longrightarrow> distinct (map fst (obj_set ob k v))"
  by (induction ob k v rule: obj_set.induct) (auto simp: keys_obj_set)

lemma obj_get_None_iff: "obj_get ob k = None \<longleftrightarrow> k \<notin> fst ` set ob"
  by (induction ob k rule: obj_get.induct) auto

lemma obj_get_key: "k \<in> set (Object_keys ob) \<Longrightarrow> obj_get ob k \<noteq> None"
  by (simp add: Object_keys_def obj_get_None_iff)





subsection \<open>Rounding\<close>

lemma pow2_pos: "0 < pow2 e"
  by (simp add: pow2_def)

lemma round_even_nonneg: "0 \<le> x \<Longrightarrow> 0 \<le> round_even x"
  by (simp add: round_even_def Let_def)


text \<open>Rounding keeps the sign.\<close>

lemma fl_nonneg: "0 \<le> x \<Longrightarrow> 0 \<le> fl x"
  using pow2_pos [of "max (ilog2 \<bar>x\<bar> - 52) (- 1074)"]
  by (simp add: fl_def Let_def round_even_nonneg)







lemma foldl_fadd_nonneg: "0 \<le> a \<Longrightarrow> \<forall>x\<in>set xs. 0 < x \<Longrightarrow> 0 \<le> foldl fadd a xs"
  by (induction xs arbitrary: a) (simp_all add: fadd_def fl_nonneg)

subsection \<open>The two folds\<close>

lemma foldl_total:
  "foldl (\<lambda>sum e. fadd sum (amount e)) a es = foldl fadd a (map amount es)"
  by (induction es arbitrary: a) simp_all

text \<open>
  The invariant of the second \<^verbatim>\<open>reduce\<close>: the keys stay distinct, and every record adds
  its category to them.
\<close>

lemma fold_categories:
  fixes acc :: "(category, real) obj" and es :: "expense list"
  assumes "distinct (map fst acc)"
  shows "distinct (map fst (foldl (\<lambda>totals e. obj_set totals (category e)
             (fadd (or0 (obj_get totals (category e))) (amount e))) acc es)) \<and>
   fst ` set (foldl (\<lambda>totals e. obj_set totals (category e)
             (fadd (or0 (obj_get totals (category e))) (amount e))) acc es) =
     fst ` set acc \<union> category ` set es"
  using assms
proof (induction es arbitrary: acc)
  case Nil
  then show ?case by simp
next
  case (Cons e es)
  let ?acc' = "obj_set acc (category e) (fadd (or0 (obj_get acc (category e))) (amount e))"
  have d: "distinct (map fst ?acc')"
    using Cons.prems by (rule distinct_obj_set)
  have k: "fst ` set ?acc' = insert (category e) (fst ` set acc)"
    by (simp add: keys_obj_set)
  from Cons.IH [OF d] k show ?case
    by (simp add: Un_commute insert_commute)
qed





lemma categoryTotals_facts:
  "distinct (Object_keys (categoryTotals (calculateTotals rs))) \<and>
   set (Object_keys (categoryTotals (calculateTotals rs))) = category ` set rs"
  using fold_categories [of "[]" rs]
  by (simp add: calculateTotals_def Object_keys_def)

lemma sum_amounts_nonneg:
  assumes "\<forall>e\<in>set rs. 0 < amount e"
  shows "0 \<le> total (calculateTotals rs)"
  using assms foldl_fadd_nonneg [of 0 "map amount rs"]
  by (simp add: calculateTotals_def foldl_total)



text \<open>
  The claim as it was stated fails on three records of 100.1 for Food, 100.2 for Transport
  and 100.3 for Food: the total is the double nearest to 300.6, the value of Food is the
  double nearest to 200.39999999999998, and the two values add up to the double nearest
  to 300.59999999999997, the next double below the total, when the addition rounds, and
  to less than the total when it does not.
\<close>

theorem calculateTotals_rounding_counterexample:
  "total (calculateTotals roundingRecords) = fl 300.6 \<and>
   categoryTotals (calculateTotals roundingRecords) =
     [(Food, fl 200.39999999999998), (Transport, fl 100.2)] \<and>
   foldl fadd 0 (Object_values (categoryTotals (calculateTotals roundingRecords))) =
     fl 300.59999999999997 \<and>
   fl 300.59999999999997 < fl 300.6 \<and>
   sum_list (Object_values (categoryTotals (calculateTotals roundingRecords))) <
     total (calculateTotals roundingRecords)"
  by code_simp

section \<open>Properties of setBudget\<close>

text \<open>
  Claim C10. With a period type other than \<^verbatim>\<open>'monthly'\<close> and \<^verbatim>\<open>'weekly'\<close>,
  \<^verbatim>\<open>setBudget\<close> returns false and the mapping is the one it was. With one of the two it
  returns true, the entry for the type and the key is the amount given, whatever it was
  before (and \<^verbatim>\<open>getBudget\<close> reads that amount), and the entry of every other pair of a
  type and a key is what it was.
\<close>

theorem setBudget_correct:
  "(ty \<noteq> ''monthly'' \<and> ty \<noteq> ''weekly'' \<longrightarrow> setBudget b ty key amt = (False, b)) \<and>
   (ty = ''monthly'' \<or> ty = ''weekly'' \<longrightarrow>
      fst (setBudget b ty key amt) = True \<and>
      budget_entry (snd (setBudget b ty key amt)) ty key = Some amt \<and>
      getBudget (snd (setBudget b ty key amt)) ty key = amt \<and>
      (\<forall>ty' key'. (ty', key') \<noteq> (ty, key) \<longrightarrow>
         budget_entry (snd (setBudget b ty key amt)) ty' key' = budget_entry b ty' key'))"
  by (auto simp: setBudget_def budget_entry_def getBudget_def or0_def parseFloat_def Let_def
           split: option.splits)

theorem setBudget_correct_witness:
  "setBudget demoBudgets ''yearly'' ''2025'' 5 = (False, demoBudgets) \<and>
   fst (setBudget demoBudgets ''monthly'' ''2025-02'' 20000) = True \<and>
   budget_entry (snd (setBudget demoBudgets ''monthly'' ''2025-02'' 20000)) ''monthly'' ''2025-02''
     = Some 20000 \<and>
   budget_entry (snd (setBudget demoBudgets ''monthly'' ''2025-02'' 20000)) ''monthly'' ''2025-01''
     = Some 15000 \<and>
   budget_entry (snd (setBudget demoBudgets ''weekly'' ''2025-01-13'' 3000)) ''monthly'' ''2025-01''
     = Some 15000"
  using setBudget_correct [of "''yearly''" demoBudgets "''2025''" 5]
    setBudget_correct [of "''monthly''" demoBudgets "''2025-02''" 20000]
    setBudget_correct [of "''weekly''" demoBudgets "''2025-01-13''" 3000]
  by (simp add: demoBudgets_def budget_entry_def)

section \<open>Properties of generateInsights\<close>

lemma toFixed0_nearest: "\<bar>real_of_int (toFixed0 x) - x\<bar> \<le> 1 / 2"
proof (cases "0 \<le> x")
  case True
  then have "toFixed0 x = \<lfloor>x + 1 / 2\<rfloor>" by (simp add: toFixed0_def)
  then show ?thesis by linarith
next
  case False
  then have "toFixed0 x = - \<lfloor>- x + 1 / 2\<rfloor>" by (simp add: toFixed0_def)
  then show ?thesis by linarith
qed

text \<open>The three rules, with the marked quotient resolved: no rule divides by 0.\<close>

lemma weeklyComparison_eq:
  "weeklyComparison cur lst =
     Inr (if cur > 0 \<and> lst > 0 then
            (if fsub cur lst > 0
             then [HigherThanLastWeek (toFixed0 (fmul (fdiv \<bar>fsub cur lst\<bar> lst) 100))]
             else if fsub cur lst < 0
             then [LowerThanLastWeek (toFixed0 (fmul (fdiv \<bar>fsub cur lst\<bar> lst) 100))]
             else [])
          else if cur > 0 \<and> lst = 0 then [StartComparing] else [])"
  by (simp add: weeklyComparison_def js_div_def Let_def)

lemma budgetInsight_eq:
  "budgetInsight bud tot =
     Inr [if bud > 0 then
            (if fsub bud tot \<ge> 0 \<and> fmul (fdiv tot bud) 100 < 80
             then Excellent (toFixed0 (fmul (fdiv tot bud) 100)) (fsub bud tot)
             else if fsub bud tot < 0 then CriticalWarning \<bar>fsub bud tot\<bar>
             else Caution (toFixed0 (fmul (fdiv tot bud) 100)))
          else Tip]"
  by (simp add: budgetInsight_def js_div_def Let_def)

lemma weeklyComparison_kinds:
  "weeklyComparison cur lst = Inr ws \<Longrightarrow> ws = [] \<or> (\<exists>w. ws = [w] \<and> kind w = WeeklyComparison)"
  by (auto simp: weeklyComparison_eq split: if_splits)

lemma budgetInsight_kinds:
  "budgetInsight bud tot = Inr bs \<Longrightarrow> \<exists>b. bs = [b] \<and> kind b = BudgetStatus"
  by (auto simp: budgetInsight_eq split: if_splits)

lemma topCategoryInsight_shape:
  "topCategoryInsight ct = [] \<or> (\<exists>c a. topCategoryInsight ct = [Observation c a]) \<or>
   (\<exists>c a. topCategoryInsight ct = [Observation c a, Suggestion c])"
  by (simp add: topCategoryInsight_def split: option.splits)

lemma generateInsights_eq:
  "\<exists>ws bs. weeklyComparison (total (w_current weekly)) (total (w_last weekly)) = Inr ws \<and>
     budgetInsight (budget monthly) (total (m_current monthly)) = Inr bs \<and>
     generateInsights weekly monthly =
       Inr (ws @ bs @ topCategoryInsight (categoryTotals (m_current monthly)))"
  by (simp add: generateInsights_def weeklyComparison_eq budgetInsight_eq)

text \<open>The fold of \<^verbatim>\<open>reduce\<close> keeps the last of the keys with the greatest value.\<close>

lemma reduce_last_max:
  fixes g :: "'k \<Rightarrow> real option"
  assumes "\<forall>k\<in>set (k0 # ks). g k \<noteq> None"
  shows "\<exists>before c after a.
           foldl (\<lambda>a b. if gt_undef (g a) (g b) then a else b) k0 ks = c \<and>
           k0 # ks = before @ [c] @ after \<and> g c = Some a \<and>
           (\<forall>k\<in>set before. \<exists>v. g k = Some v \<and> v \<le> a) \<and>
           (\<forall>k\<in>set after. \<exists>v. g k = Some v \<and> v < a)"
  using assms
proof (induction ks rule: rev_induct)
  case Nil
  then obtain a where "g k0 = Some a" by auto
  then have "foldl (\<lambda>a b. if gt_undef (g a) (g b) then a else b) k0 [] = k0 \<and>
           k0 # [] = [] @ [k0] @ [] \<and> g k0 = Some a \<and>
           (\<forall>k\<in>set []. \<exists>v. g k = Some v \<and> v \<le> a) \<and>
           (\<forall>k\<in>set []. \<exists>v. g k = Some v \<and> v < a)" by simp
  then show ?case by blast
next
  case (snoc x ks)
  then have "\<forall>k\<in>set (k0 # ks). g k \<noteq> None" by simp
  from snoc.IH [OF this] obtain before c after a where
    f: "foldl (\<lambda>a b. if gt_undef (g a) (g b) then a else b) k0 ks = c" and
    s: "k0 # ks = before @ [c] @ after" and a: "g c = Some a" and
    b: "\<forall>k\<in>set before. \<exists>v. g k = Some v \<and> v \<le> a" and
    l: "\<forall>k\<in>set after. \<exists>v. g k = Some v \<and> v < a" by blast
  from snoc.prems obtain vx where vx: "g x = Some vx" by auto
  show ?case
  proof (cases "a > vx")
    case True
    have "foldl (\<lambda>a b. if gt_undef (g a) (g b) then a else b) k0 (ks @ [x]) = c \<and>
          k0 # (ks @ [x]) = before @ [c] @ (after @ [x]) \<and> g c = Some a \<and>
          (\<forall>k\<in>set before. \<exists>v. g k = Some v \<and> v \<le> a) \<and>
          (\<forall>k\<in>set (after @ [x]). \<exists>v. g k = Some v \<and> v < a)"
      using f s a b l vx True by (simp add: gt_undef_def)
    then show ?thesis by blast
  next
    case False
    have "foldl (\<lambda>a b. if gt_undef (g a) (g b) then a else b) k0 (ks @ [x]) = x \<and>
          k0 # (ks @ [x]) = (before @ [c] @ after) @ [x] @ [] \<and> g x = Some vx \<and>
          (\<forall>k\<in>set (before @ [c] @ after). \<exists>v. g k = Some v \<and> v \<le> vx) \<and>
          (\<forall>k\<in>set []. \<exists>v. g k = Some v \<and> v < vx)"
      using f s a b l vx False by (fastforce simp: gt_undef_def)
    then show ?thesis by blast
  qed
qed

lemma topCategory_last_max:
  assumes "Object_keys ct \<noteq> []"
  shows "\<exists>before c after a. topCategory ct = Some c \<and>
           Object_keys ct = before @ [c] @ after \<and> obj_get ct c = Some a \<and>
           (\<forall>k\<in>set before. \<exists>v. obj_get ct k = Some v \<and> v \<le> a) \<and>
           (\<forall>k\<in>set after. \<exists>v. obj_get ct k = Some v \<and> v < a)"
proof -
  from assms obtain k0 ks where ks: "Object_keys ct = k0 # ks"
    by (cases "Object_keys ct") auto
  have "\<forall>k\<in>set (k0 # ks). obj_get ct k \<noteq> None"
    using obj_get_key [of _ ct] ks by simp
  from reduce_last_max [OF this] ks show ?thesis
    by (simp add: topCategory_def)
qed

text \<open>
  Claim C1, as amended. When the record set of the current month is empty, no top-category
  message is emitted. When it has a record, exactly one is emitted; it names a key \<open>c\<close> of
  \<^verbatim>\<open>categoryTotals\<close> with its summed amount \<open>a\<close>, no key has a greater amount, and every
  key that \<^verbatim>\<open>Object.keys\<close> lists after \<open>c\<close> has a smaller one: of the categories tied for the
  maximum, the last in the order of iteration is named, not the first.
\<close>

theorem top_category_last_maximum:
  assumes "m_current monthly = calculateTotals rs"
  shows "\<exists>xs. generateInsights weekly monthly = Inr xs \<and>
     (rs = [] \<longrightarrow> filter (\<lambda>i. kind i = TopCategory) xs = []) \<and>
     (rs \<noteq> [] \<longrightarrow> (\<exists>before c after a.
         filter (\<lambda>i. kind i = TopCategory) xs = [Observation c a] \<and>
         Object_keys (categoryTotals (calculateTotals rs)) = before @ [c] @ after \<and>
         obj_get (categoryTotals (calculateTotals rs)) c = Some a \<and>
         (\<forall>k\<in>set before. \<exists>v. obj_get (categoryTotals (calculateTotals rs)) k = Some v \<and> v \<le> a) \<and>
         (\<forall>k\<in>set after. \<exists>v. obj_get (categoryTotals (calculateTotals rs)) k = Some v \<and> v < a)))"
proof -
  let ?ct = "categoryTotals (calculateTotals rs)"
  obtain ws bs where w: "weeklyComparison (total (w_current weekly)) (total (w_last weekly)) = Inr ws"
    and b: "budgetInsight (budget monthly) (total (m_current monthly)) = Inr bs"
    and g: "generateInsights weekly monthly = Inr (ws @ bs @ topCategoryInsight ?ct)"
    using generateInsights_eq [of weekly monthly] assms by auto
  from weeklyComparison_kinds [OF w] have 1: "filter (\<lambda>i. kind i = TopCategory) ws = []" by auto
  from budgetInsight_kinds [OF b] have 2: "filter (\<lambda>i. kind i = TopCategory) bs = []" by auto
  have 3: "rs = [] \<longrightarrow> topCategoryInsight ?ct = []"
    by (simp add: calculateTotals_def topCategoryInsight_def Object_keys_def)
  have 4: "rs \<noteq> [] \<longrightarrow> (\<exists>before c after a.
         filter (\<lambda>i. kind i = TopCategory) (topCategoryInsight ?ct) = [Observation c a] \<and>
         Object_keys ?ct = before @ [c] @ after \<and> obj_get ?ct c = Some a \<and>
         (\<forall>k\<in>set before. \<exists>v. obj_get ?ct k = Some v \<and> v \<le> a) \<and>
         (\<forall>k\<in>set after. \<exists>v. obj_get ?ct k = Some v \<and> v < a))"
  proof
    assume "rs \<noteq> []"
    then have "set (Object_keys ?ct) \<noteq> {}"
      using categoryTotals_facts [of rs] by auto
    then have ne: "Object_keys ?ct \<noteq> []" by auto
    from topCategory_last_max [OF ne] obtain before c after a where
      t: "topCategory ?ct = Some c" and k: "Object_keys ?ct = before @ [c] @ after"
      and a: "obj_get ?ct c = Some a"
      and bf: "\<forall>k\<in>set before. \<exists>v. obj_get ?ct k = Some v \<and> v \<le> a"
      and af: "\<forall>k\<in>set after. \<exists>v. obj_get ?ct k = Some v \<and> v < a" by blast
    have "filter (\<lambda>i. kind i = TopCategory) (topCategoryInsight ?ct) = [Observation c a]"
      using ne t a by (simp add: topCategoryInsight_def)
    with k a bf af show "\<exists>before c after a.
         filter (\<lambda>i. kind i = TopCategory) (topCategoryInsight ?ct) = [Observation c a] \<and>
         Object_keys ?ct = before @ [c] @ after \<and> obj_get ?ct c = Some a \<and>
         (\<forall>k\<in>set before. \<exists>v. obj_get ?ct k = Some v \<and> v \<le> a) \<and>
         (\<forall>k\<in>set after. \<exists>v. obj_get ?ct k = Some v \<and> v < a)" by blast
  qed
  from g 1 2 3 4 show ?thesis by simp
qed

theorem top_category_last_maximum_witness:
  "\<exists>xs. generateInsights weekD (monthOf demo 0) = Inr xs \<and>
     filter (\<lambda>i. kind i = TopCategory) xs = [Observation Shopping (fl 650.99)]"
proof -
  have m: "m_current (monthOf demo 0) = calculateTotals demo"
    by (simp add: monthOf_def)
  have e: "generateInsights weekD (monthOf demo 0) =
             Inr [HigherThanLastWeek 100, Tip, Observation Shopping (fl 650.99),
                  Suggestion Shopping]"
    by code_simp
  from top_category_last_maximum [OF m, of weekD] obtain xs where
    "generateInsights weekD (monthOf demo 0) = Inr xs" by blast
  with e show ?thesis by simp
qed

text \<open>
  The claim as it was stated fails on two records of 10 each, the first for Food and the
  second for Transport: the two categories are tied, Food is the first key, and the message
  names Transport.
\<close>

theorem top_category_tie_counterexample:
  "Object_keys (categoryTotals (calculateTotals tied)) = [Food, Transport] \<and>
   obj_get (categoryTotals (calculateTotals tied)) Food = Some 10 \<and>
   obj_get (categoryTotals (calculateTotals tied)) Transport = Some 10 \<and>
   generateInsights weekD (monthOf tied 0) =
     Inr [HigherThanLastWeek 100, Tip, Observation Transport 10]"
  by code_simp

text \<open>
  Claim C2. Every call of \<^verbatim>\<open>generateInsights\<close> returns, and exactly one of its messages is
  a budget-status message \<open>b\<close>. With \<open>remaining = budget - total\<close> of the current month and
  \<open>percentUsed = total / budget * 100\<close>, each operation rounded to a double as the code
  computes it: when the budget is greater than 0, \<open>b\<close> is the excellent message if
  \<open>remaining \<ge> 0\<close> and \<open>percentUsed < 80\<close>, the critical message if \<open>remaining < 0\<close>,
  the caution message if \<open>remaining \<ge> 0\<close> and \<open>percentUsed \<ge> 80\<close>; when the budget is
  not greater than 0, \<open>b\<close> is the tip.
\<close>

theorem budget_status_exactly_one:
  "\<exists>xs b. generateInsights weekly monthly = Inr xs \<and>
     filter (\<lambda>i. kind i = BudgetStatus) xs = [b] \<and>
     (let bud = budget monthly; tot = total (m_current monthly);
          remaining = fsub bud tot; percentUsed = fmul (fdiv tot bud) 100 in
      (bud > 0 \<and> remaining \<ge> 0 \<and> percentUsed < 80 \<longrightarrow>
         b = Excellent (toFixed0 percentUsed) remaining) \<and>
      (bud > 0 \<and> remaining < 0 \<longrightarrow> b = CriticalWarning \<bar>remaining\<bar>) \<and>
      (bud > 0 \<and> remaining \<ge> 0 \<and> percentUsed \<ge> 80 \<longrightarrow> b = Caution (toFixed0 percentUsed)) \<and>
      (\<not> bud > 0 \<longrightarrow> b = Tip))"
proof -
  let ?bud = "budget monthly"
  let ?tot = "total (m_current monthly)"
  let ?b = "if ?bud > 0 then
          (if fsub ?bud ?tot \<ge> 0 \<and> fmul (fdiv ?tot ?bud) 100 < 80
           then Excellent (toFixed0 (fmul (fdiv ?tot ?bud) 100)) (fsub ?bud ?tot)
           else if fsub ?bud ?tot < 0
           then CriticalWarning \<bar>fsub ?bud ?tot\<bar>
           else Caution (toFixed0 (fmul (fdiv ?tot ?bud) 100)))
        else Tip"
  obtain ws bs where w: "weeklyComparison (total (w_current weekly)) (total (w_last weekly)) = Inr ws"
    and b: "budgetInsight (budget monthly) (total (m_current monthly)) = Inr bs"
    and g: "generateInsights weekly monthly =
              Inr (ws @ bs @ topCategoryInsight (categoryTotals (m_current monthly)))"
    using generateInsights_eq by blast
  from weeklyComparison_kinds [OF w] have 1: "filter (\<lambda>i. kind i = BudgetStatus) ws = []" by auto
  from budgetInsight_kinds [OF b] have 2: "filter (\<lambda>i. kind i = BudgetStatus) bs = bs" by auto
  from topCategoryInsight_shape [of "categoryTotals (m_current monthly)"]
  have 3: "filter (\<lambda>i. kind i = BudgetStatus)
             (topCategoryInsight (categoryTotals (m_current monthly))) = []"
    by auto
  from b have bs: "bs = [?b]" unfolding budgetInsight_eq by simp
  have f: "filter (\<lambda>i. kind i = BudgetStatus)
             (ws @ bs @ topCategoryInsight (categoryTotals (m_current monthly))) = [?b]"
    using 1 2 3 bs by simp
  have c: "let bud = budget monthly; tot = total (m_current monthly);
          remaining = fsub bud tot; percentUsed = fmul (fdiv tot bud) 100 in
      (bud > 0 \<and> remaining \<ge> 0 \<and> percentUsed < 80 \<longrightarrow>
         ?b = Excellent (toFixed0 percentUsed) remaining) \<and>
      (bud > 0 \<and> remaining < 0 \<longrightarrow> ?b = CriticalWarning \<bar>remaining\<bar>) \<and>
      (bud > 0 \<and> remaining \<ge> 0 \<and> percentUsed \<ge> 80 \<longrightarrow> ?b = Caution (toFixed0 percentUsed)) \<and>
      (\<not> bud > 0 \<longrightarrow> ?b = Tip)"
    by (simp add: Let_def)
  from g f c show ?thesis by blast
qed

text \<open>
  A budget of 20.1 with a total of 16.08: the quotient times 100 is the double nearest to
  79.99999999999999, below 80, so the message is the excellent one, with the percentage
  that \<^verbatim>\<open>toFixed(0)\<close> prints as 80. A budget of 40 with a total of 23: the percentage is
  the double nearest to 57.49999999999999, printed as 57.
\<close>

theorem budget_status_exactly_one_witness:
  "(\<exists>xs. generateInsights weekD (monthOf [mkExpense (fl 16.08) Food ''2025-01-14''] (fl 20.1)) =
           Inr xs \<and>
         filter (\<lambda>i. kind i = BudgetStatus) xs = [Excellent 80 (fl 4.020000000000003)]) \<and>
   (\<exists>xs. generateInsights weekD (monthOf [mkExpense 23 Food ''2025-01-14''] 40) = Inr xs \<and>
         filter (\<lambda>i. kind i = BudgetStatus) xs = [Excellent 57 17])"
proof -
  let ?m = "monthOf [mkExpense (fl 16.08) Food ''2025-01-14''] (fl 20.1)"
  let ?n = "monthOf [mkExpense 23 Food ''2025-01-14''] 40"
  from budget_status_exactly_one [of weekD ?m] obtain xs b where
    g: "generateInsights weekD ?m = Inr xs"
    and f: "filter (\<lambda>i. kind i = BudgetStatus) xs = [b]"
    and c: "0 < budget ?m \<and> 0 \<le> fsub (budget ?m) (total (m_current ?m)) \<and>
        fmul (fdiv (total (m_current ?m)) (budget ?m)) 100 < 80 \<longrightarrow>
        b = Excellent (toFixed0 (fmul (fdiv (total (m_current ?m)) (budget ?m)) 100))
              (fsub (budget ?m) (total (m_current ?m)))"
    unfolding Let_def by blast
  have h: "0 < budget ?m \<and> 0 \<le> fsub (budget ?m) (total (m_current ?m)) \<and>
        fmul (fdiv (total (m_current ?m)) (budget ?m)) 100 < 80"
    by code_simp
  have v: "fmul (fdiv (total (m_current ?m)) (budget ?m)) 100 = fl 79.99999999999999 \<and>
        toFixed0 (fl 79.99999999999999) = 80 \<and>
        fsub (budget ?m) (total (m_current ?m)) = fl 4.020000000000003"
    by code_simp
  from c h v have "b = Excellent 80 (fl 4.020000000000003)" by simp
  with g f have 1: "\<exists>xs. generateInsights weekD ?m = Inr xs \<and>
         filter (\<lambda>i. kind i = BudgetStatus) xs = [Excellent 80 (fl 4.020000000000003)]"
    by blast
  from budget_status_exactly_one [of weekD ?n] obtain xs' b' where
    g': "generateInsights weekD ?n = Inr xs'"
    and f': "filter (\<lambda>i. kind i = BudgetStatus) xs' = [b']"
    and c': "0 < budget ?n \<and> 0 \<le> fsub (budget ?n) (total (m_current ?n)) \<and>
        fmul (fdiv (total (m_current ?n)) (budget ?n)) 100 < 80 \<longrightarrow>
        b' = Excellent (toFixed0 (fmul (fdiv (total (m_current ?n)) (budget ?n)) 100))
              (fsub (budget ?n) (total (m_current ?n)))"
    unfolding Let_def by blast
  have h': "0 < budget ?n \<and> 0 \<le> fsub (budget ?n) (total (m_current ?n)) \<and>
        fmul (fdiv (total (m_current ?n)) (budget ?n)) 100 < 80"
    by code_simp
  have v': "fmul (fdiv (total (m_current ?n)) (budget ?n)) 100 = fl 57.49999999999999 \<and>
        toFixed0 (fl 57.49999999999999) = 57 \<and>
        fsub (budget ?n) (total (m_current ?n)) = 17"
    by code_simp
  from c' h' v' have "b' = Excellent 57 17" by simp
  with g' f' have 2: "\<exists>xs. generateInsights weekD ?n = Inr xs \<and>
         filter (\<lambda>i. kind i = BudgetStatus) xs = [Excellent 57 17]"
    by blast
  from 1 2 show ?thesis by (rule conjI)
qed

text \<open>
  Claim C3. For weeks whose records have positive amounts (the invariant of the data model,
  which the entry form enforces), the weekly-comparison messages of \<^verbatim>\<open>generateInsights\<close>
  are: when both totals are nonzero, the warning if \<open>diff = current - last\<close> is positive,
  the positive message if it is negative, each with the percentage \<open>|diff| / last * 100\<close>
  as \<^verbatim>\<open>toFixed(0)\<close> rounds it, and nothing if \<open>diff\<close> is 0; the start-comparing message
  when the current total is nonzero and the last total is 0; nothing otherwise. The
  difference, the quotient and the product are each rounded to a double, as the code
  computes them. The call returns, so no quotient has the divisor 0, and \<^verbatim>\<open>toFixed(0)\<close>
  is within one half of its argument.
\<close>

theorem weekly_comparison_rule:
  assumes "w_current weekly = calculateTotals cur_rs" and "w_last weekly = calculateTotals last_rs"
    and "\<forall>e\<in>set cur_rs. 0 < amount e" and "\<forall>e\<in>set last_rs. 0 < amount e"
  shows "\<exists>xs. generateInsights weekly monthly = Inr xs \<and>
     filter (\<lambda>i. kind i = WeeklyComparison) xs =
       (let cur = total (w_current weekly); lst = total (w_last weekly); diff = fsub cur lst;
            percentDiff = fmul (fdiv \<bar>diff\<bar> lst) 100 in
        if cur \<noteq> 0 \<and> lst \<noteq> 0 then
          (if diff > 0 then [HigherThanLastWeek (toFixed0 percentDiff)]
           else if diff < 0 then [LowerThanLastWeek (toFixed0 percentDiff)]
           else [])
        else if cur \<noteq> 0 \<and> lst = 0 then [StartComparing]
        else []) \<and>
     (\<forall>x. \<bar>real_of_int (toFixed0 x) - x\<bar> \<le> 1 / 2)"
proof -
  obtain ws bs where w: "weeklyComparison (total (w_current weekly)) (total (w_last weekly)) = Inr ws"
    and b: "budgetInsight (budget monthly) (total (m_current monthly)) = Inr bs"
    and g: "generateInsights weekly monthly =
              Inr (ws @ bs @ topCategoryInsight (categoryTotals (m_current monthly)))"
    using generateInsights_eq by blast
  have c0: "0 \<le> total (w_current weekly)" and l0: "0 \<le> total (w_last weekly)"
    using assms by (simp_all add: sum_amounts_nonneg)
  from weeklyComparison_kinds [OF w] have 1: "filter (\<lambda>i. kind i = WeeklyComparison) ws = ws" by auto
  from budgetInsight_kinds [OF b] have 2: "filter (\<lambda>i. kind i = WeeklyComparison) bs = []" by auto
  from topCategoryInsight_shape [of "categoryTotals (m_current monthly)"]
  have 3: "filter (\<lambda>i. kind i = WeeklyComparison)
             (topCategoryInsight (categoryTotals (m_current monthly))) = []"
    by auto
  have f: "filter (\<lambda>i. kind i = WeeklyComparison)
             (ws @ bs @ topCategoryInsight (categoryTotals (m_current monthly))) = ws"
    using 1 2 3 by simp
  from w c0 l0 have ws_eq: "ws =
       (let cur = total (w_current weekly); lst = total (w_last weekly); diff = fsub cur lst;
            percentDiff = fmul (fdiv \<bar>diff\<bar> lst) 100 in
        if cur \<noteq> 0 \<and> lst \<noteq> 0 then
          (if diff > 0 then [HigherThanLastWeek (toFixed0 percentDiff)]
           else if diff < 0 then [LowerThanLastWeek (toFixed0 percentDiff)]
           else [])
        else if cur \<noteq> 0 \<and> lst = 0 then [StartComparing]
        else [])"
    unfolding weeklyComparison_eq by (auto simp: Let_def)
  show ?thesis
  proof (intro exI [of _ "ws @ bs @ topCategoryInsight (categoryTotals (m_current monthly))"]
      conjI allI)
    show "generateInsights weekly monthly =
            Inr (ws @ bs @ topCategoryInsight (categoryTotals (m_current monthly)))"
      by (rule g)
    show "filter (\<lambda>i. kind i = WeeklyComparison)
            (ws @ bs @ topCategoryInsight (categoryTotals (m_current monthly))) =
       (let cur = total (w_current weekly); lst = total (w_last weekly); diff = fsub cur lst;
            percentDiff = fmul (fdiv \<bar>diff\<bar> lst) 100 in
        if cur \<noteq> 0 \<and> lst \<noteq> 0 then
          (if diff > 0 then [HigherThanLastWeek (toFixed0 percentDiff)]
           else if diff < 0 then [LowerThanLastWeek (toFixed0 percentDiff)]
           else [])
        else if cur \<noteq> 0 \<and> lst = 0 then [StartComparing]
        else [])"
      unfolding f by (rule ws_eq)
    show "\<bar>real_of_int (toFixed0 x) - x\<bar> \<le> 1 / 2" for x
      by (rule toFixed0_nearest)
  qed
qed

text \<open>
  Totals of 63 and 40: the percentage is the double nearest to 57.49999999999999, which
  \<^verbatim>\<open>toFixed(0)\<close> prints as 57.
\<close>

theorem weekly_comparison_rule_witness:
  "fmul (fdiv \<bar>fsub 63 40\<bar> 40) 100 = fl 57.49999999999999 \<and>
   (\<exists>xs. generateInsights (weekOf 63 40) (monthOf [] 0) = Inr xs \<and>
         filter (\<lambda>i. kind i = WeeklyComparison) xs = [HigherThanLastWeek 57])"
proof -
  let ?w = "weekOf 63 40"
  have c: "w_current ?w = calculateTotals [mkExpense 63 Food ''2025-01-14'']"
    and l: "w_last ?w = calculateTotals [mkExpense 40 Food ''2025-01-07'']"
    by (simp_all add: weekOf_def)
  have pc: "\<forall>e\<in>set [mkExpense 63 Food ''2025-01-14'']. 0 < amount e"
    and pl: "\<forall>e\<in>set [mkExpense 40 Food ''2025-01-07'']. 0 < amount e"
    by (simp_all add: mkExpense_def)
  from weekly_comparison_rule [OF c l pc pl, of "monthOf [] 0"] obtain xs where
    g: "generateInsights ?w (monthOf [] 0) = Inr xs"
    and f: "filter (\<lambda>i. kind i = WeeklyComparison) xs =
       (let cur = total (w_current ?w); lst = total (w_last ?w); diff = fsub cur lst;
            percentDiff = fmul (fdiv \<bar>diff\<bar> lst) 100 in
        if cur \<noteq> 0 \<and> lst \<noteq> 0 then
          (if diff > 0 then [HigherThanLastWeek (toFixed0 percentDiff)]
           else if diff < 0 then [LowerThanLastWeek (toFixed0 percentDiff)]
           else [])
        else if cur \<noteq> 0 \<and> lst = 0 then [StartComparing]
        else [])"
    by blast
  have v: "(let cur = total (w_current ?w); lst = total (w_last ?w); diff = fsub cur lst;
            percentDiff = fmul (fdiv \<bar>diff\<bar> lst) 100 in
        if cur \<noteq> 0 \<and> lst \<noteq> 0 then
          (if diff > 0 then [HigherThanLastWeek (toFixed0 percentDiff)]
           else if diff < 0 then [LowerThanLastWeek (toFixed0 percentDiff)]
           else [])
        else if cur \<noteq> 0 \<and> lst = 0 then [StartComparing]
        else []) = [HigherThanLastWeek 57]"
    by code_simp
  have p: "fmul (fdiv \<bar>fsub 63 40\<bar> 40) 100 = fl 57.49999999999999"
    by code_simp
  from g f v p show ?thesis by auto
qed

text \<open>
  Claim C8. Every call of \<^verbatim>\<open>generateInsights\<close> returns its messages in one order: at most
  one weekly-comparison message (the start-comparing message is one), then exactly one
  budget-status message, then the top-category observation if there is one, then the
  savings suggestion if there is one, which only follows an observation.
\<close>

theorem generateInsights_order:
  "\<exists>xs. generateInsights weekly monthly = Inr xs \<and>
     map kind xs \<in> {[BudgetStatus], [WeeklyComparison, BudgetStatus],
                     [BudgetStatus, TopCategory], [WeeklyComparison, BudgetStatus, TopCategory],
                     [BudgetStatus, TopCategory, SavingsSuggestion],
                     [WeeklyComparison, BudgetStatus, TopCategory, SavingsSuggestion]}"
proof -
  obtain ws bs where w: "weeklyComparison (total (w_current weekly)) (total (w_last weekly)) = Inr ws"
    and b: "budgetInsight (budget monthly) (total (m_current monthly)) = Inr bs"
    and g: "generateInsights weekly monthly =
              Inr (ws @ bs @ topCategoryInsight (categoryTotals (m_current monthly)))"
    using generateInsights_eq by blast
  from weeklyComparison_kinds [OF w]
  have "map kind ws = [] \<or> map kind ws = [WeeklyComparison]" by auto
  moreover from budgetInsight_kinds [OF b] have "map kind bs = [BudgetStatus]" by auto
  moreover from topCategoryInsight_shape [of "categoryTotals (m_current monthly)"]
  have "map kind (topCategoryInsight (categoryTotals (m_current monthly))) \<in>
          {[], [TopCategory], [TopCategory, SavingsSuggestion]}" by auto
  ultimately show ?thesis using g by auto
qed

theorem generateInsights_order_witness:
  "generateInsights weekD (monthOf demo 0) =
     Inr [HigherThanLastWeek 100, Tip, Observation Shopping (fl 650.99), Suggestion Shopping] \<and>
   map kind [HigherThanLastWeek 100, Tip, Observation Shopping (fl 650.99), Suggestion Shopping] =
     [WeeklyComparison, BudgetStatus, TopCategory, SavingsSuggestion]"
proof -
  let ?L = "[HigherThanLastWeek 100, Tip, Observation Shopping (fl 650.99), Suggestion Shopping]"
  have e: "generateInsights weekD (monthOf demo 0) = Inr ?L"
    by code_simp
  from generateInsights_order [of weekD "monthOf demo 0"] obtain xs where
    gk: "generateInsights weekD (monthOf demo 0) = Inr xs \<and>
      map kind xs \<in> {[BudgetStatus], [WeeklyComparison, BudgetStatus],
                     [BudgetStatus, TopCategory], [WeeklyComparison, BudgetStatus, TopCategory],
                     [BudgetStatus, TopCategory, SavingsSuggestion],
                     [WeeklyComparison, BudgetStatus, TopCategory, SavingsSuggestion]}" ..
  from gk have g: "generateInsights weekD (monthOf demo 0) = Inr xs" by (rule conjunct1)
  from g [symmetric] e have "Inr xs = (Inr ?L :: js_error + insight list)" by (rule trans)
  then have x: "xs = ?L" by (simp only: sum.inject)
  from g have 1: "generateInsights weekD (monthOf demo 0) = Inr ?L" unfolding x .
  have 2: "map kind ?L = [WeeklyComparison, BudgetStatus, TopCategory, SavingsSuggestion]"
    by simp
  from 1 2 show ?thesis by (rule conjI)
qed

section \<open>Properties of the bucket keys\<close>

subsection \<open>Digits and padding\<close>

lemma digit_val_digit_char: "n < 10 \<Longrightarrow> digit_val (digit_char n) = n"
  by (simp add: digit_val_def digit_char_def)

lemma is_digit_digit_char: "n < 10 \<Longrightarrow> is_digit (digit_char n)"
  by (simp add: is_digit_def digit_char_def)

lemma digit_char_not_dash: "n < 10 \<Longrightarrow> digit_char n \<noteq> CHR ''-''"
proof
  assume n: "n < 10" and "digit_char n = CHR ''-''"
  then have "(of_char (digit_char n) :: nat) = of_char CHR ''-''" by simp
  with n show False by (simp add: digit_char_def)
qed

lemma show_nat_digits: "list_all is_digit (show_nat n)"
proof (induction n rule: show_nat.induct)
  case (1 n)
  show ?case
  proof (cases "n < 10")
    case True
    then show ?thesis by (simp add: show_nat.simps [of n] is_digit_digit_char)
  next
    case False
    with 1 show ?thesis by (simp add: show_nat.simps [of n] is_digit_digit_char)
  qed
qed

lemma dec_snoc: "dec (s @ [c]) = 10 * dec s + digit_val c"
  by (simp add: dec_def)

lemma dec_show_nat: "dec (show_nat n) = n"
proof (induction n rule: show_nat.induct)
  case (1 n)
  show ?case
  proof (cases "n < 10")
    case True
    then show ?thesis by (simp add: show_nat.simps [of n] dec_def digit_val_digit_char)
  next
    case False
    with 1 show ?thesis by (simp add: show_nat.simps [of n] dec_snoc digit_val_digit_char)
  qed
qed

lemma length_show_nat: "n < 10 ^ k \<Longrightarrow> 0 < k \<Longrightarrow> length (show_nat n) \<le> k"
proof (induction n arbitrary: k rule: show_nat.induct)
  case (1 n)
  show ?case
  proof (cases "n < 10")
    case True
    with 1 show ?thesis by (simp add: show_nat.simps [of n] Suc_leI)
  next
    case False
    with "1.prems" obtain j where k: "k = Suc j" by (cases k) auto
    with False "1.prems" have j: "0 < j" by (cases j) auto
    from "1.prems" k have "n div 10 < 10 ^ j" by (simp add: less_mult_imp_div_less mult.commute)
    with 1 False j have "length (show_nat (n div 10)) \<le> j" by simp
    with False k show ?thesis by (simp add: show_nat.simps [of n])
  qed
qed

lemma length_show_nat_pos: "0 < length (show_nat n)"
  by (subst show_nat.simps) simp

lemma show_nat_nonempty: "show_nat n \<noteq> []"
  using length_show_nat_pos [of n] by auto

lemma digit_char_simps:
  "digit_char 0 = CHR ''0''" "digit_char (Suc 0) = CHR ''1''" "digit_char 2 = CHR ''2''"
  "digit_char 3 = CHR ''3''" "digit_char 4 = CHR ''4''" "digit_char 5 = CHR ''5''"
  "digit_char 6 = CHR ''6''" "digit_char 7 = CHR ''7''" "digit_char 8 = CHR ''8''"
  "digit_char 9 = CHR ''9''"
  unfolding digit_char_def by code_simp+

lemma dec_zeros: "dec (replicate j CHR ''0'' @ s) = dec s"
proof -
  have "foldl (\<lambda>a c. 10 * a + digit_val c) 0 (replicate j CHR ''0'') = 0"
    by (induction j) (simp_all add: digit_val_def)
  then show ?thesis by (simp add: dec_def)
qed

lemma length_pad: "n < 10 ^ k \<Longrightarrow> 0 < k \<Longrightarrow> length (pad k n) = k"
  using length_show_nat [of n k] by (simp add: pad_def padStart_def)

lemma dec_pad: "dec (pad k n) = n"
  by (simp add: pad_def padStart_def dec_zeros dec_show_nat)

lemma pad_digits: "list_all is_digit (pad k n)"
  using show_nat_digits [of n]
  by (auto simp: pad_def padStart_def is_digit_def list_all_iff)

lemma digits_no_dash: "list_all is_digit s \<Longrightarrow> CHR ''-'' \<notin> set s"
  by (auto simp: list_all_iff is_digit_def)

lemma split_no_sep: "sep \<notin> set a \<Longrightarrow> split sep a = [a]"
  by (induction a) auto

lemma split_at_sep: "sep \<notin> set a \<Longrightarrow> split sep (a @ sep # rest) = a # split sep rest"
  by (induction a) auto

lemma length_show_nat_ge: "10 ^ j \<le> n \<Longrightarrow> j < length (show_nat n)"
proof (induction n arbitrary: j rule: show_nat.induct)
  case (1 n)
  show ?case
  proof (cases j)
    case 0
    then show ?thesis by (simp add: show_nat_nonempty)
  next
    case (Suc i)
    from Suc "1.prems" have "10 * 10 ^ i \<le> n" by simp
    moreover have "(10::nat) \<le> 10 * 10 ^ i" by simp
    ultimately have big: "\<not> n < 10" by linarith
    from Suc "1.prems" have "10 ^ i \<le> n div 10" by auto
    with 1 big have "i < length (show_nat (n div 10))" by simp
    with big Suc show ?thesis by (simp add: show_nat.simps [of n])
  qed
qed

lemma pad_eq_show_nat: "0 < k \<Longrightarrow> 10 ^ (k - 1) \<le> n \<Longrightarrow> pad k n = show_nat n"
  using length_show_nat_ge [of "k - 1" n] by (simp add: pad_def padStart_def)

lemma split_month_key:
  assumes "y \<le> 9999" "m \<le> 99"
  shows "split CHR ''-'' (month_key y m) = [pad 4 y, pad 2 m]"
  using digits_no_dash [OF pad_digits [of 4 y]] digits_no_dash [OF pad_digits [of 2 m]]
  by (simp add: month_key_def split_at_sep split_no_sep)

lemma Number_pad: "0 < k \<Longrightarrow> Number_str (pad k n) = Num (int n)"
proof -
  have "pad k n \<noteq> []" by (simp add: pad_def padStart_def show_nat_nonempty)
  then show ?thesis by (simp add: Number_str_def dec_pad pad_digits)
qed

text \<open>
  Claim C7. For a key \<^verbatim>\<open>YYYY-MM\<close> of a month from 1 to 12, \<^verbatim>\<open>getPreviousMonth\<close> returns
  the month before it: for January the year before and the month 12, for another month the
  same year and the month less one, padded to two digits. The year is printed as a plain
  number, so the result is a key of four digits for the year from the year 1000 on (for
  January, from 1001 on).
\<close>

theorem getPreviousMonth_correct:
  assumes "y \<le> 9999" and "1 \<le> m" and "m \<le> 12"
  shows "getPreviousMonth (month_key y m) =
           Inr (if m = 1 then show_int (int y - 1) @ ''-12''
                else show_int (int y) @ ''-'' @ pad 2 (m - 1)) \<and>
         (m = 1 \<and> 1001 \<le> y \<longrightarrow> getPreviousMonth (month_key y m) = Inr (month_key (y - 1) 12)) \<and>
         (m \<noteq> 1 \<and> 1000 \<le> y \<longrightarrow> getPreviousMonth (month_key y m) = Inr (month_key y (m - 1)))"
proof -
  have parts: "map Number_str (split CHR ''-'' (month_key y m)) = [Num (int y), Num (int m)]"
    using assms by (simp add: split_month_key Number_pad)
  have twelve: "show_nat 12 = ''12''"
    by (simp add: show_nat.simps digit_char_simps)
  have g: "getPreviousMonth (month_key y m) =
           Inr (if m = 1 then show_int (int y - 1) @ ''-12''
                else show_int (int y) @ ''-'' @ pad 2 (m - 1))"
    using assms twelve
    by (simp add: getPreviousMonth_def parts nth_opt_def Let_def ToNumber_def num_sub_def
        ToString_def String_num_def pad_def show_int_def padStart_def nat_diff_distrib)
  have p12: "pad 2 12 = ''12''"
    using twelve by (simp add: pad_def padStart_def)
  have j: "1001 \<le> y \<Longrightarrow> show_int (int y - 1) = pad 4 (y - 1)"
    using pad_eq_show_nat [of 4 "y - 1"] by (simp add: show_int_def nat_diff_distrib)
  have n: "1000 \<le> y \<Longrightarrow> show_int (int y) = pad 4 y"
    using pad_eq_show_nat [of 4 y] by (simp add: show_int_def)
  have a: "m = 1 \<and> 1001 \<le> y \<longrightarrow> getPreviousMonth (month_key y m) = Inr (month_key (y - 1) 12)"
  proof (intro impI, elim conjE)
    assume "m = 1" and "1001 \<le> y"
    with g j p12 show "getPreviousMonth (month_key y m) = Inr (month_key (y - 1) 12)"
      by (simp add: month_key_def)
  qed
  have b: "m \<noteq> 1 \<and> 1000 \<le> y \<longrightarrow> getPreviousMonth (month_key y m) = Inr (month_key y (m - 1))"
  proof (intro impI, elim conjE)
    assume "m \<noteq> 1" and "1000 \<le> y"
    with g n show "getPreviousMonth (month_key y m) = Inr (month_key y (m - 1))"
      by (simp add: month_key_def)
  qed
  from g a b show ?thesis by blast
qed

theorem getPreviousMonth_correct_witness:
  "getPreviousMonth ''2025-01'' = Inr ''2024-12'' \<and> getPreviousMonth ''2025-11'' = Inr ''2025-10''"
  using getPreviousMonth_correct [of 2025 1] getPreviousMonth_correct [of 2025 11]
  by (simp add: month_key_def pad_def padStart_def show_int_def show_nat.simps digit_char_simps)

subsection \<open>The calendar\<close>

text \<open>
  \<open>YearFromDay\<close> is the year ECMAScript defines: the year \<open>y\<close> with
  \<open>DayFromYear y \<le> d < DayFromYear (y + 1)\<close>, which is unique since \<open>DayFromYear\<close>
  grows.
\<close>

lemma div_lower: "0 < n \<Longrightarrow> n * (a div n) \<le> a" for a n :: int
proof -
  assume n: "0 < n"
  have "a = n * (a div n) + a mod n" by simp
  moreover from n have "0 \<le> a mod n" by simp
  ultimately show ?thesis by linarith
qed

lemma div_upper: "0 < n \<Longrightarrow> a < n * (a div n) + n" for a n :: int
proof -
  assume n: "0 < n"
  have "a = n * (a div n) + a mod n" by simp
  moreover from n have "a mod n < n" by simp
  ultimately show ?thesis by linarith
qed

lemma DayFromYear_bounds:
  "146097 * (y - 1970) - 506 \<le> 400 * DayFromYear y"
  "400 * DayFromYear y \<le> 146097 * (y - 1970) + 589"
proof -
  define a where "a = (y - 1969) div 4"
  define b where "b = (y - 1901) div 100"
  define c where "c = (y - 1601) div 400"
  have a: "4 * a \<le> y - 1969" "y - 1969 < 4 * a + 4"
    unfolding a_def by (simp_all add: div_lower div_upper)
  have b: "100 * b \<le> y - 1901" "y - 1901 < 100 * b + 100"
    unfolding b_def by (simp_all add: div_lower div_upper)
  have c: "400 * c \<le> y - 1601" "y - 1601 < 400 * c + 400"
    unfolding c_def by (simp_all add: div_lower div_upper)
  have f: "DayFromYear y = 365 * (y - 1970) + a - b + c"
    by (simp add: DayFromYear_def a_def b_def c_def)
  from a(2) have a2: "100 * (y - 1969) \<le> 400 * a + 300" by simp
  from a(1) have a1: "400 * a \<le> 100 * (y - 1969)" by simp
  from b(1) have b1: "400 * b \<le> 4 * (y - 1901)" by simp
  from b(2) have b2: "4 * (y - 1901) \<le> 400 * b + 396" by simp
  from c(2) have c2: "y - 1601 \<le> 400 * c + 399" by simp
  show "146097 * (y - 1970) - 506 \<le> 400 * DayFromYear y"
    using a2 b1 c2 unfolding f by simp
  show "400 * DayFromYear y \<le> 146097 * (y - 1970) + 589"
    using a1 b2 c(1) unfolding f by simp
qed

lemma DayFromYear_mono: "DayFromYear y < DayFromYear (y + 1)"
proof -
  have "(y - 1969) div 4 \<le> (y + 1 - 1969) div 4"
    by (rule zdiv_mono1) simp_all
  moreover have "(y - 1601) div 400 \<le> (y + 1 - 1601) div 400"
    by (rule zdiv_mono1) simp_all
  moreover have "(y + 1 - 1901) div 100 \<le> (y - 1901) div 100 + 1"
  proof -
    have "(y + 1 - 1901) div 100 \<le> (y - 1901 + 100) div 100"
      by (rule zdiv_mono1) simp_all
    then show ?thesis by simp
  qed
  ultimately show ?thesis by (simp add: DayFromYear_def)
qed

lemma YearFromDay_spec:
  "DayFromYear (YearFromDay d) \<le> d \<and> d < DayFromYear (YearFromDay d + 1)"
proof -
  define q where "q = (400 * d) div 146097"
  have q1: "146097 * q \<le> 400 * d" unfolding q_def by (simp add: div_lower)
  have q2: "400 * d < 146097 * q + 146097" unfolding q_def by (simp add: div_upper)
  have "400 * DayFromYear (1970 + q - 1) \<le> 146097 * q - 145508"
    using DayFromYear_bounds(2) [of "1970 + q - 1"] by simp
  with q1 have "400 * DayFromYear (1970 + q - 1) \<le> 400 * d" by simp
  then have lo: "DayFromYear (1970 + q - 1) \<le> d" by simp
  have "146097 * q + 291688 \<le> 400 * DayFromYear (1970 + q + 1 + 1)"
    using DayFromYear_bounds(1) [of "1970 + q + 1 + 1"] by simp
  with q2 have "400 * d < 400 * DayFromYear (1970 + q + 1 + 1)" by simp
  then have hi: "d < DayFromYear (1970 + q + 1 + 1)" by simp
  show ?thesis
    using lo hi by (simp add: YearFromDay_def Let_def q_def [symmetric])
qed

subsection \<open>Dates\<close>

text \<open>
  Setting the day of the month to the current one plus \<open>k\<close> moves the date by \<open>k\<close> days,
  across the ends of months and years; a date-only key is read as the start of its day in
  UTC.
\<close>

lemma MonthFromDay_range: "0 \<le> MonthFromDay d \<and> MonthFromDay d \<le> 11"
  by (simp add: MonthFromDay_def Let_def)

lemma MakeDay_current:
  "MakeDay (YearFromDay d) (MonthFromDay d) dt = d + (dt - DateFromDay d)"
proof -
  from MonthFromDay_range [of d]
  have "MonthFromDay d div 12 = 0" and "MonthFromDay d mod 12 = MonthFromDay d"
    by simp_all
  then show ?thesis
    by (simp add: MakeDay_def DateFromDay_def DayWithinYear_def Let_def)
qed

lemma setDate_shift: "setDate h t (getDate h t + k) = t + k * msPerDay"
proof -
  have "Day (LocalTime h t) * msPerDay + TimeWithinDay (LocalTime h t) = LocalTime h t"
    by (simp add: Day_def TimeWithinDay_def)
  then have "(Day (LocalTime h t) + k) * msPerDay + TimeWithinDay (LocalTime h t)
               = LocalTime h t + k * msPerDay"
    by (simp add: algebra_simps)
  then show ?thesis
    by (simp add: setDate_def getDate_def MakeDay_current Let_def UTC_def LocalTime_def)
qed

lemma setDate_day: "setDate h t dt = t + (dt - getDate h t) * msPerDay"
  using setDate_shift [of h t "dt - getDate h t"] by simp

lemma Day_add_days: "Day (n * msPerDay + x) = n + Day x"
  by (simp add: Day_def msPerDay_def)

lemma Day_days: "Day (n * msPerDay) = n"
  by (simp add: Day_def msPerDay_def)

lemma Day_small: "0 \<le> x \<Longrightarrow> x < msPerDay \<Longrightarrow> Day x = 0"
  by (simp add: Day_def)

lemma Day_small_neg: "- msPerDay \<le> x \<Longrightarrow> x < 0 \<Longrightarrow> Day x = - 1"
  by (simp add: Day_def msPerDay_def div_pos_neg_trivial zdiv_eq_0_iff) 


lemma new_Date_date_key:
  assumes "valid_date y m d"
  shows "new_Date h (date_key y m d) = Some (day_number y m d * msPerDay)"
proof -
  from assms have y: "y < 10 ^ 4" and m: "m < 10 ^ 2" and d: "d < 10 ^ 2"
    and m1: "1 \<le> m" and m12: "m \<le> 12" and d1: "1 \<le> d"
    and dm: "int d \<le> DaysInMonth (int y) (int m)"
    by (auto simp: valid_date_def DaysInMonth_def split: if_splits)
  have ly: "length (pad 4 y) = 4" using y by (simp add: length_pad)
  have lm: "length (pad 2 m) = 2" using m by (simp add: length_pad)
  have ld: "length (pad 2 d) = 2" using d by (simp add: length_pad)
  let ?s = "date_key y m d"
  have len: "length ?s = 10" by (simp add: date_key_def ly lm ld)
  have t4: "take 4 ?s = pad 4 y" by (simp add: date_key_def ly)
  have d5: "take 2 (drop 5 ?s) = pad 2 m" by (simp add: date_key_def ly lm)
  have d8: "drop 8 ?s = pad 2 d" by (simp add: date_key_def ly lm ld)
  have n4: "?s ! 4 = CHR ''-''" by (simp add: date_key_def ly nth_append)
  have n7: "?s ! 7 = CHR ''-''" by (simp add: date_key_def ly lm nth_append)
  show ?thesis
    unfolding new_Date_def len t4 d5 d8 n4 n7
    using m1 m12 d1 dm by (simp add: pad_digits dec_pad day_number_def)
qed

subsection \<open>Keys and day numbers\<close>

text \<open>
  The calendar of the model is consistent: the day number of a day of the calendar has the
  year, the month and the day of the month of that day, so \<^verbatim>\<open>toISOString\<close> prints, for
  the time a key is read as, the key itself.
\<close>

lemma div_step:
  fixes a n :: int
  assumes "0 < n"
  shows "(a + 1) div n = a div n + (if (a + 1) mod n = 0 then 1 else 0)"
proof -
  define q where "q = a div n"
  define r where "r = a mod n"
  have a: "a = n * q + r" and r: "0 \<le> r" "r < n"
    using assms by (simp_all add: q_def r_def)
  show ?thesis
  proof (cases "r + 1 = n")
    case True
    then have "a + 1 = n * (q + 1) + 0" using a by (simp add: algebra_simps)
    then have "(a + 1) div n = q + 1" and "(a + 1) mod n = 0"
      using assms by (simp_all only: div_mult_self4 mod_mult_self4 add_0_right, simp_all)
    then show ?thesis by (simp add: q_def)
  next
    case False
    with r have r1: "0 \<le> r + 1" "r + 1 < n" by simp_all
    have a1: "a + 1 = n * q + (r + 1)" using a by simp
    have "(a + 1) div n = q" unfolding a1 using r1 assms by (simp add: div_pos_pos_trivial)
    moreover have "(a + 1) mod n = r + 1" unfolding a1 using r1 assms by (simp add: mod_pos_pos_trivial)
    ultimately show ?thesis using r1 r by (simp add: q_def)
  qed
qed

lemma mod_shift: "(y - n * k) mod n = y mod n" for y n k :: int
proof -
  have "y - n * k = y + n * (- k)" by simp
  then show ?thesis by (simp only: mod_mult_self2)
qed

lemma DayFromYear_Suc:
  "DayFromYear (y + 1) = DayFromYear y + (if InLeapYear y then 366 else 365)"
proof -
  have a: "(y + 1 - 1969) div 4 = (y - 1969) div 4 + (if y mod 4 = 0 then 1 else 0)"
    using div_step [of 4 "y - 1969"] mod_shift [of y 4 492] by (simp add: algebra_simps)
  have b: "(y + 1 - 1901) div 100 = (y - 1901) div 100 + (if y mod 100 = 0 then 1 else 0)"
    using div_step [of 100 "y - 1901"] mod_shift [of y 100 19] by (simp add: algebra_simps)
  have c: "(y + 1 - 1601) div 400 = (y - 1601) div 400 + (if y mod 400 = 0 then 1 else 0)"
    using div_step [of 400 "y - 1601"] mod_shift [of y 400 4] by (simp add: algebra_simps)
  have d: "y mod 4 = 0" if "y mod 100 = 0"
  proof -
    from that have "100 dvd y" by (simp add: dvd_eq_mod_eq_0)
    moreover have "(4::int) dvd 100" by simp
    ultimately have "4 dvd y" by (rule dvd_trans [rotated])
    then show ?thesis by (simp add: dvd_eq_mod_eq_0)
  qed
  have e: "y mod 100 = 0" if "y mod 400 = 0"
  proof -
    from that have "400 dvd y" by (simp add: dvd_eq_mod_eq_0)
    moreover have "(100::int) dvd 400" by simp
    ultimately have "100 dvd y" by (rule dvd_trans [rotated])
    then show ?thesis by (simp add: dvd_eq_mod_eq_0)
  qed
  show ?thesis
  proof (cases "y mod 4 = 0")
    case False
    with d e have "y mod 100 \<noteq> 0" "y mod 400 \<noteq> 0" by auto
    with False show ?thesis
      unfolding DayFromYear_def a b c InLeapYear_def by simp
  next
    case y4: True
    show ?thesis
    proof (cases "y mod 100 = 0")
      case False
      with e have "y mod 400 \<noteq> 0" by auto
      with y4 False show ?thesis
        unfolding DayFromYear_def a b c InLeapYear_def by simp
    next
      case True
      with y4 show ?thesis
        unfolding DayFromYear_def a b c InLeapYear_def by simp
    qed
  qed
qed


lemma DayFromYear_less: "y < y' \<Longrightarrow> DayFromYear y < DayFromYear y'"
proof -
  assume "y < y'"
  then have "146097 * (y - 1970) + 146097 \<le> 146097 * (y' - 1970)" by simp
  with DayFromYear_bounds(2) [of y] DayFromYear_bounds(1) [of y']
  have "400 * DayFromYear y < 400 * DayFromYear y'" by simp
  then show ?thesis by simp
qed

lemma YearFromDay_unique:
  assumes "DayFromYear y \<le> d" and "d < DayFromYear (y + 1)"
  shows "YearFromDay d = y"
proof (rule ccontr)
  assume ne: "YearFromDay d \<noteq> y"
  from YearFromDay_spec [of d]
  have lo: "DayFromYear (YearFromDay d) \<le> d" and hi: "d < DayFromYear (YearFromDay d + 1)"
    by simp_all
  show False
  proof (cases "YearFromDay d < y")
    case True
    then have "YearFromDay d + 1 = y \<or> YearFromDay d + 1 < y" by auto
    then have "DayFromYear (YearFromDay d + 1) \<le> DayFromYear y"
      using DayFromYear_less [of "YearFromDay d + 1" y] by auto
    with hi assms(1) show False by simp
  next
    case False
    with ne have "y + 1 = YearFromDay d \<or> y + 1 < YearFromDay d" by auto
    then have "DayFromYear (y + 1) \<le> DayFromYear (YearFromDay d)"
      using DayFromYear_less [of "y + 1" "YearFromDay d"] by auto
    with lo assms(2) show False by simp
  qed
qed

lemma month_cases:
  assumes "1 \<le> m" and "m \<le> 12"
  shows "m = 1 \<or> m = 2 \<or> m = 3 \<or> m = 4 \<or> m = 5 \<or> m = 6 \<or> m = 7 \<or> m = 8 \<or> m = 9 \<or>
         m = 10 \<or> m = 11 \<or> m = (12::nat)"
  using assms by arith

lemma civil_of_day_number:
  assumes "valid_date y m d"
  shows "YearFromDay (day_number y m d) = int y \<and>
         MonthFromDay (day_number y m d) = int m - 1 \<and>
         DateFromDay (day_number y m d) = int d"
proof -
  from assms have m: "1 \<le> m" "m \<le> 12" and d1: "1 \<le> d"
    and dm: "int d \<le> DaysInMonth (int y) (int m)"
    by (simp_all add: valid_date_def)
  let ?l = "InLeapYear (int y)"
  let ?n = "monthStart (int m - 1) ?l + int d - 1"
  have N: "day_number y m d = DayFromYear (int y) + ?n"
    using m by (simp add: day_number_def MakeDay_def Let_def)
  have n0: "0 \<le> ?n"
    using d1 by (simp add: monthStart_def Let_def)
  have n1: "?n < (if ?l then 366 else 365)"
    using month_cases [OF m] dm d1
    by (auto simp: monthStart_def DaysInMonth_def Let_def)
  have Y: "YearFromDay (day_number y m d) = int y"
    by (rule YearFromDay_unique) (use n0 n1 in \<open>simp_all add: N DayFromYear_Suc\<close>)
  have W: "DayWithinYear (day_number y m d) = ?n"
    unfolding DayWithinYear_def Y by (simp add: N)
  have M: "MonthFromDay (day_number y m d) = int m - 1"
  proof (cases ?l)
    case True
    from month_cases [OF m] show ?thesis
      unfolding MonthFromDay_def W Y
      by (elim disjE) (use True dm d1 in \<open>simp_all add: monthStart_def DaysInMonth_def\<close>)
  next
    case False
    from month_cases [OF m] show ?thesis
      unfolding MonthFromDay_def W Y
      by (elim disjE) (use False dm d1 in \<open>simp_all add: monthStart_def DaysInMonth_def\<close>)
  qed
  have D: "DateFromDay (day_number y m d) = int d"
    unfolding DateFromDay_def W Y M by simp
  from Y M D show ?thesis by simp
qed

lemma iso_day_day_number:
  assumes "valid_date y m d"
  shows "iso_day (day_number y m d) = date_key y m d"
  using civil_of_day_number [OF assms] assms
  by (simp add: iso_day_def iso_year_def date_key_def valid_date_def)

lemma iso_date_new_Date:
  assumes "valid_date y m d"
  shows "new_Date h (date_key y m d) = Some t \<Longrightarrow> iso_date t = date_key y m d"
  using new_Date_date_key [OF assms, of h] iso_day_day_number [OF assms]
  by (auto simp: iso_date_def Day_days)

section \<open>Properties of getExpensesByWeek\<close>

text \<open>
  Claim C6. On a host whose local time is less than a day from UTC, for a week key \<open>w\<close> and a
  record \<open>r\<close> whose dates are days of the calendar: \<open>r\<close> is in the result of
  \<^verbatim>\<open>getExpensesByWeek\<close> for \<open>w\<close> if and only if it is in the store and its day is one of
  the seven days from \<open>w\<close> to \<open>w\<close> plus 6 days. A record of the day \<open>w\<close> plus 6 is in the
  result, one of the day \<open>w\<close> plus 7 is not.
\<close>

theorem getExpensesByWeek_window:
  assumes "valid_date yw mw dw" and "valid_date y m d" and "date r = date_key y m d"
    and "- msPerDay < tzOffset h" and "tzOffset h < msPerDay"
  shows "r \<in> set (getExpensesByWeek h es (date_key yw mw dw)) \<longleftrightarrow>
           r \<in> set es \<and> day_number yw mw dw \<le> day_number y m d \<and>
           day_number y m d \<le> day_number yw mw dw + 6"
proof -
  let ?W = "day_number yw mw dw" and ?R = "day_number y m d" and ?o = "tzOffset h"
  have s: "new_Date h (date_key yw mw dw) = Some (?W * msPerDay)"
    using assms(1) by (rule new_Date_date_key)
  have e: "new_Date h (date r) = Some (?R * msPerDay)"
    using assms(2,3) by (simp add: new_Date_date_key)
  have sd: "setDate h (?W * msPerDay) (getDate h (?W * msPerDay) + 6) = (?W + 6) * msPerDay"
    using setDate_shift [of h "?W * msPerDay" 6] by (simp add: algebra_simps)
  have en: "setHours h ((?W + 6) * msPerDay) 23 59 59 999 =
              (?W + 6 + Day ?o) * msPerDay + (msPerDay - 1) - ?o"
  proof -
    have "Day ((?W + 6) * msPerDay + ?o) = ?W + 6 + Day ?o"
      by (rule Day_add_days)
    then show ?thesis
      by (simp add: setHours_def LocalTime_def UTC_def msPerDay_def)
  qed
  have c1: "?W * msPerDay \<le> ?R * msPerDay \<longleftrightarrow> ?W \<le> ?R"
    by (simp add: msPerDay_def)
  have c2: "?R * msPerDay \<le> (?W + 6 + Day ?o) * msPerDay + (msPerDay - 1) - ?o \<longleftrightarrow> ?R \<le> ?W + 6"
  proof (cases "0 \<le> ?o")
    case True
    with assms(5) have "Day ?o = 0" by (simp add: Day_small)
    with True assms(5) show ?thesis by (simp add: msPerDay_def) linarith
  next
    case False
    with assms(4) have "Day ?o = - 1" by (simp add: Day_small_neg)
    with False assms(4) show ?thesis by (simp add: msPerDay_def) linarith
  qed
  show ?thesis
    unfolding getExpensesByWeek_def
    by (simp add: s e sd en date_le_def Let_def c1 c2)
qed

theorem getExpensesByWeek_window_witness:
  "mkExpense 1 Food ''2025-01-19'' \<in> set (getExpensesByWeek est_host weekRecords ''2025-01-13'') \<and>
   mkExpense 1 Food ''2025-01-20'' \<notin> set (getExpensesByWeek est_host weekRecords ''2025-01-13'') \<and>
   mkExpense 1 Food ''2025-01-19'' \<in> set (getExpensesByWeek ist_host weekRecords ''2025-01-13'') \<and>
   mkExpense 1 Food ''2025-01-12'' \<notin> set (getExpensesByWeek ist_host weekRecords ''2025-01-13'')"
proof -
  have v: "valid_date 2025 1 13" "valid_date 2025 1 19" "valid_date 2025 1 20" "valid_date 2025 1 12"
    by code_simp+
  have k: "''2025-01-13'' = date_key 2025 1 13"
    "date (mkExpense 1 Food ''2025-01-19'') = date_key 2025 1 19"
    "date (mkExpense 1 Food ''2025-01-20'') = date_key 2025 1 20"
    "date (mkExpense 1 Food ''2025-01-12'') = date_key 2025 1 12"
    by code_simp+
  have n: "day_number 2025 1 13 = 20101" "day_number 2025 1 19 = 20107"
    "day_number 2025 1 20 = 20108" "day_number 2025 1 12 = 20100"
    by code_simp+
  have o: "- msPerDay < tzOffset est_host" "tzOffset est_host < msPerDay"
    "- msPerDay < tzOffset ist_host" "tzOffset ist_host < msPerDay"
    by (simp_all add: est_host_def ist_host_def msPerDay_def)
  from getExpensesByWeek_window [OF v(1) v(2) k(2) o(1) o(2), of weekRecords]
    getExpensesByWeek_window [OF v(1) v(3) k(3) o(1) o(2), of weekRecords]
    getExpensesByWeek_window [OF v(1) v(2) k(2) o(3) o(4), of weekRecords]
    getExpensesByWeek_window [OF v(1) v(4) k(4) o(3) o(4), of weekRecords]
  show ?thesis
    unfolding k(1) [symmetric] n by (simp add: weekRecords_def)
qed

section \<open>Properties of getStartOfWeek\<close>

lemma week_split: "\<exists>q r. (L::int) = 7 * q + r \<and> 0 \<le> r \<and> r < 7"
proof -
  have "L = 7 * (L div 7) + L mod 7 \<and> 0 \<le> L mod 7 \<and> L mod 7 < 7" by simp
  then show ?thesis by blast
qed

lemma mod7_of: "0 \<le> r \<Longrightarrow> r < 7 \<Longrightarrow> (7 * q + r) mod 7 = (r::int)"
  by simp

lemma monday_shift:
  "(if (L + 4) mod 7 = 0 then - 6 else 1) - (L + 4) mod 7 = - ((L + 3) mod 7)" for L :: int
proof -
  obtain q r where L: "L + 3 = 7 * q + r" and r: "0 \<le> r" "r < 7"
    using week_split [of "L + 3"] by blast
  have a: "(L + 3) mod 7 = r" unfolding L using r by (rule mod7_of)
  show ?thesis
  proof (cases "r = 6")
    case True
    with L have "L + 4 = 7 * (q + 1) + 0" by simp
    then have "(L + 4) mod 7 = 0" by (simp only: mod7_of)
    with a True show ?thesis by simp
  next
    case False
    with r have r1: "0 \<le> r + 1" "r + 1 < 7" by simp_all
    from L have "L + 4 = 7 * q + (r + 1)" by simp
    then have "(L + 4) mod 7 = r + 1" using r1 by (simp only: mod7_of)
    with a r show ?thesis by simp
  qed
qed

lemma monday_weekday: "WeekDay (N - (N + 3) mod 7) = 1"
proof -
  obtain q r where N: "N + 3 = 7 * q + r" and r: "0 \<le> r" "r < 7"
    using week_split [of "N + 3"] by blast
  have a: "(N + 3) mod 7 = r" unfolding N using r by (rule mod7_of)
  from N have "N - r + 4 = 7 * q + 1" by simp
  then have "(N - r + 4) mod 7 = 1" by (simp only: mod7_of)
  with a show ?thesis by (simp add: WeekDay_def)
qed

lemma sunday_weekday: "WeekDay (N - (N + 3) mod 7 - 1) = 0"
proof -
  obtain q r where N: "N + 3 = 7 * q + r" and r: "0 \<le> r" "r < 7"
    using week_split [of "N + 3"] by blast
  have a: "(N + 3) mod 7 = r" unfolding N using r by (rule mod7_of)
  from N have "N - r - 1 + 4 = 7 * q + 0" by simp
  then have "(N - r - 1 + 4) mod 7 = 0" by (simp only: mod7_of)
  with a show ?thesis by (simp add: WeekDay_def)
qed

lemma getStartOfWeek_date_key:
  assumes "valid_date y m d"
  shows "getStartOfWeek h (date_key y m d) =
           Inr (iso_day (let L = day_number y m d + Day (tzOffset h)
                         in L - (L + 3) mod 7 + Day (- tzOffset h)))"
proof -
  let ?N = "day_number y m d" and ?o = "tzOffset h"
  let ?t = "?N * msPerDay"
  let ?L = "?N + Day ?o"
  define day where "day = getDay h ?t"
  define k where "k = (if day = 0 then - 6 else (1::int)) - day"
  have p: "new_Date h (date_key y m d) = Some ?t"
    using assms by (rule new_Date_date_key)
  have "day = (?L + 4) mod 7"
    by (simp add: day_def getDay_def WeekDay_def LocalTime_def Day_add_days)
  then have k: "k = - ((?L + 3) mod 7)"
    unfolding k_def using monday_shift [of ?L] by simp
  have d1: "setDate h ?t (getDate h ?t - day + (if day = 0 then - 6 else 1)) = ?t + k * msPerDay"
    by (simp add: setDate_day k_def algebra_simps)
  have "Day ((?N + k) * msPerDay + ?o) = ?N + k + Day ?o"
    by (rule Day_add_days)
  then have "Day (LocalTime h (?t + k * msPerDay)) = ?L + k"
    by (simp add: LocalTime_def algebra_simps)
  then have d2: "setHours h (?t + k * msPerDay) 0 0 0 0 = (?L + k) * msPerDay + (- ?o)"
    by (simp add: setHours_def UTC_def)
  have d3: "iso_date ((?L + k) * msPerDay + (- ?o)) = iso_day (?L + k + Day (- ?o))"
    unfolding iso_date_def by (simp only: Day_add_days)
  have "getStartOfWeek h (date_key y m d) = Inr (iso_day (?L + k + Day (- ?o)))"
    unfolding getStartOfWeek_def p
    by (simp only: option.case Let_def day_def [symmetric] d1 d2 d3)
  then show ?thesis
    unfolding k by (simp add: Let_def)
qed

text \<open>On a host on UTC the key is the one of the Monday on or before the day.\<close>

lemma getStartOfWeek_utc:
  assumes "valid_date y m d" and "tzOffset h = 0"
  shows "getStartOfWeek h (date_key y m d) =
           Inr (iso_day (day_number y m d - (day_number y m d + 3) mod 7)) \<and>
         WeekDay (day_number y m d - (day_number y m d + 3) mod 7) = 1"
proof -
  have "WeekDay (day_number y m d - (day_number y m d + 3) mod 7) = 1"
    by (rule monday_weekday)
  then show ?thesis
    using getStartOfWeek_date_key [OF assms(1), of h] assms(2)
    by (simp add: Day_def Let_def)
qed

text \<open>On a host east of UTC it is the key of the day before that Monday, a Sunday.\<close>

lemma getStartOfWeek_east:
  assumes "valid_date y m d" and "0 < tzOffset h" and "tzOffset h < msPerDay"
  shows "getStartOfWeek h (date_key y m d) =
           Inr (iso_day (day_number y m d - (day_number y m d + 3) mod 7 - 1)) \<and>
         WeekDay (day_number y m d - (day_number y m d + 3) mod 7 - 1) = 0"
proof -
  have w: "WeekDay (day_number y m d - (day_number y m d + 3) mod 7 - 1) = 0"
    by (rule sunday_weekday)
  from assms have a: "Day (tzOffset h) = 0" by (simp add: Day_small)
  from assms have b: "Day (- tzOffset h) = - 1" by (simp add: Day_small_neg)
  from w show ?thesis
    using getStartOfWeek_date_key [OF assms(1), of h]
    by (simp add: a b Let_def)
qed

text \<open>On a host west of UTC, the key for a Monday is the one of the Monday a week before.\<close>

lemma getStartOfWeek_west_monday:
  assumes "valid_date y m d" and "- msPerDay < tzOffset h" and "tzOffset h < 0"
    and "WeekDay (day_number y m d) = 1"
  shows "getStartOfWeek h (date_key y m d) = Inr (iso_day (day_number y m d - 7))"
proof -
  let ?N = "day_number y m d"
  from assms have a: "Day (tzOffset h) = - 1" by (simp add: Day_small_neg)
  from assms have b: "Day (- tzOffset h) = 0" by (simp add: Day_small)
  obtain q r where N: "?N + 4 = 7 * q + r" and r: "0 \<le> r" "r < 7"
    using week_split [of "?N + 4"] by blast
  have "(?N + 4) mod 7 = r" unfolding N using r by (rule mod7_of)
  with assms(4) have r1: "r = 1" by (simp add: WeekDay_def)
  from N r1 have "?N - 1 + 3 = 7 * (q - 1) + 6" by simp
  then have "(?N - 1 + 3) mod 7 = 6" by (simp only: mod7_of)
  then show ?thesis
    using getStartOfWeek_date_key [OF assms(1), of h]
    by (simp add: a b Let_def)
qed

text \<open>
  \<^verbatim>\<open>getPreviousWeek\<close> has no such fault: on every host its key is the one of the day seven
  days before.
\<close>

lemma getPreviousWeek_date_key:
  assumes "valid_date y m d"
  shows "getPreviousWeek h (date_key y m d) = Inr (iso_day (day_number y m d - 7))"
proof -
  let ?t = "day_number y m d * msPerDay"
  have p: "new_Date h (date_key y m d) = Some ?t"
    using assms by (rule new_Date_date_key)
  have "setDate h ?t (getDate h ?t - 7) = (day_number y m d - 7) * msPerDay"
    by (simp add: setDate_day algebra_simps)
  then show ?thesis
    unfolding getPreviousWeek_def p by (simp add: iso_date_def Day_days)
qed

text \<open>
  Claim C5. The function gives the key of the Monday on or before the day on a host on UTC
  (\<open>getStartOfWeek_utc\<close>) and on no other: east of UTC it gives the Sunday before that
  Monday (\<open>getStartOfWeek_east\<close>), west of UTC it gives, for a Monday, the Monday a week
  before (\<open>getStartOfWeek_west_monday\<close>). On Indian time, for Wednesday 2025-01-15, it
  returns 2025-01-12, a Sunday, where the Monday on or before the day is 2025-01-13, which
  is what it returns on UTC; on a host five hours west of UTC, for Monday 2025-01-13, it
  returns 2025-01-06.
\<close>

theorem getStartOfWeek_sunday_on_indian_time:
  "getStartOfWeek ist_host ''2025-01-15'' = Inr ''2025-01-12'' \<and>
   WeekDay (day_number 2025 1 12) = 0 \<and>
   getStartOfWeek utc_host ''2025-01-15'' = Inr ''2025-01-13'' \<and>
   WeekDay (day_number 2025 1 13) = 1 \<and>
   getStartOfWeek est_host ''2025-01-13'' = Inr ''2025-01-06''"
  by code_simp

section \<open>Errors of the bucket functions\<close>

text \<open>
  Claim C9, as amended. For every string that \<^verbatim>\<open>new Date\<close> cannot read (an invalid date),
  \<^verbatim>\<open>getStartOfWeek\<close>, \<^verbatim>\<open>getStartOfMonth\<close> and \<^verbatim>\<open>getPreviousWeek\<close> fail, with the
  \<^verbatim>\<open>RangeError\<close> of \<^verbatim>\<open>toISOString\<close>; for every string it can read they return a key,
  and it reads every key of a day of the calendar. \<^verbatim>\<open>getPreviousMonth\<close> checks nothing
  and returns a string for every string.
\<close>

theorem bucket_functions_errors:
  "(new_Date h s = None \<longrightarrow>
      getStartOfWeek h s = Inl RangeError \<and> getStartOfMonth h s = Inl RangeError \<and>
      getPreviousWeek h s = Inl RangeError) \<and>
   (new_Date h s \<noteq> None \<longrightarrow>
      (\<exists>k. getStartOfWeek h s = Inr k) \<and> (\<exists>k. getStartOfMonth h s = Inr k) \<and>
      (\<exists>k. getPreviousWeek h s = Inr k)) \<and>
   (valid_date y m d \<longrightarrow> new_Date h (date_key y m d) \<noteq> None) \<and>
   (\<exists>k. getPreviousMonth s = Inr k)"
  by (auto simp: getStartOfWeek_def getStartOfMonth_def getPreviousWeek_def getPreviousMonth_def
      new_Date_date_key Let_def)

theorem bucket_functions_errors_witness:
  "getStartOfWeek utc_host ''next tuesday'' = Inl RangeError \<and>
   getStartOfMonth utc_host ''next tuesday'' = Inl RangeError \<and>
   getPreviousWeek utc_host ''next tuesday'' = Inl RangeError \<and>
   getStartOfWeek utc_host ''2025-01-15'' = Inr ''2025-01-13'' \<and>
   getStartOfMonth utc_host ''2025-01-15'' = Inr ''2025-01'' \<and>
   getPreviousWeek utc_host ''2025-01-13'' = Inr ''2025-01-06''"
proof -
  have n: "new_Date utc_host ''next tuesday'' = None" by code_simp
  have e: "getStartOfWeek utc_host ''2025-01-15'' = Inr ''2025-01-13'' \<and>
   getStartOfMonth utc_host ''2025-01-15'' = Inr ''2025-01'' \<and>
   getPreviousWeek utc_host ''2025-01-13'' = Inr ''2025-01-06''" by code_simp
  from bucket_functions_errors [of utc_host "''next tuesday''" 2025 1 15] n e
  show ?thesis by simp
qed

text \<open>
  The claim as it was stated fails for \<^verbatim>\<open>getPreviousMonth\<close>: on a key with no month, and
  on a string that is no key at all, it returns a key with NaN in it and no error.
\<close>

theorem getPreviousMonth_malformed_counterexample:
  "getPreviousMonth ''2025'' = Inr ''2025-NaN'' \<and> getPreviousMonth ''garbage'' = Inr ''NaN-NaN''"
  by code_simp

end
